theory Spec2Isabelle
  imports Main
begin

section \<open>Data model\<close>

text \<open>
  The development embeds \<^verbatim>\<open>src/next/src/services/agent/autonomous-agent.ts\<close>
  (class \<^verbatim>\<open>AutonomousAgent\<close> and \<^verbatim>\<open>getMessageFromError\<close>) together with the two
  callbacks of \<^verbatim>\<open>src/next/src/pages/index.tsx\<close> the agent is constructed with
  (\<^verbatim>\<open>handleAddMessage\<close>, \<^verbatim>\<open>handleContinue\<close>).

  The agent is asynchronous but strictly sequential: every \<^verbatim>\<open>await\<close> is completed before
  the next statement runs. The model is therefore a state transformer; a pacing delay is an
  event of the trace, and nothing else runs while the agent waits. Console logging is left out.
\<close>

datatype AgentMode = AUTOMATIC_MODE | PAUSE_MODE

datatype AgentPlaybackControl = AGENT_PLAY | AGENT_PAUSE

datatype TaskStatus = Started | Executing | Completed | Final

text \<open>A task message; \<^verbatim>\<open>taskId\<close> is the uuid drawn with \<^verbatim>\<open>v1()\<close>, modelled as a counter value.\<close>

record Task =
  taskId :: nat
  taskValue :: string
  status :: TaskStatus
  info :: "string option"

type_synonym Analysis = string

text \<open>
  The messages the agent sends. \<^verbatim>\<open>BareMessage\<close> is an object with a status and nothing
  else, what \<^verbatim>\<open>{ ...currentTask, status: "executing" }\<close> is when \<^verbatim>\<open>currentTask\<close> is
  \<^verbatim>\<open>undefined\<close>; it has no \<^verbatim>\<open>type\<close>, so it is not a task message.
\<close>

datatype Message =
    GoalMessage string
  | ThinkingMessage
  | TaskMessage Task
  | AnalysisMessage Analysis
  | ErrorMessage string
  | CompletedMessage
  | LoopMessage
  | ManualShutdownMessage
  | BareMessage TaskStatus

text \<open>
  What a \<^verbatim>\<open>catch (e)\<close> can receive: an axios error with the status of its response
  (\<^verbatim>\<open>e.response?.status\<close>, absent when there is no response), or anything else.
\<close>

datatype error = AxiosError "int option" | OtherError string

datatype request =
    GetInitialTasks string
  | AnalyzeTask string
  | ExecuteTask string Analysis
  | GetAdditionalTasks string "string list" "string list" string

text \<open>Everything the agent does to its surroundings, in the order it does it.\<close>

datatype event =
    Msg Message
  | Request request
  | Shutdown
  | HandlePause AgentPlaybackControl
  | Timeout nat

text \<open>
  The fields of \<^verbatim>\<open>AutonomousAgent\<close> the control flow reads or writes
  (\<^verbatim>\<open>customMaxLoops\<close> is \<^verbatim>\<open>modelSettings.customMaxLoops\<close>), the flag kept by its
  \<^verbatim>\<open>MessageService\<close>, the task list of the global \<^verbatim>\<open>useMessageStore\<close>, the trace of
  effects, the uuid counter, the number of requests sent so far, and whether the page still
  holds the agent (\<^verbatim>\<open>agent\<close> of index.tsx is not \<^verbatim>\<open>null\<close>).
\<close>

record state =
  goal :: string
  completedTasks :: "string list"
  customMaxLoops :: "int option"
  isRunning :: bool
  numLoops :: int
  mode :: AgentMode
  playbackControl :: AgentPlaybackControl
  serviceIsRunning :: bool
  tasks :: "Task list"
  trace :: "event list"
  nextId :: nat
  requests :: nat
  pageAgent :: bool

text \<open>
  What the agent imports and this repository's sources do not show: the constant
  \<^verbatim>\<open>DEFAULT_MAX_LOOPS_FREE\<close>, the function \<^verbatim>\<open>translate\<close>, and the answers of the
  reasoning backend. An answer may depend on the number of requests made before it, so that
  the backend need not answer the same request the same way twice.
\<close>

record env =
  DEFAULT_MAX_LOOPS_FREE :: int
  translate :: "string \<Rightarrow> string \<Rightarrow> string"
  decompose :: "nat \<Rightarrow> string \<Rightarrow> error + string list"
  analyze :: "nat \<Rightarrow> string \<Rightarrow> error + Analysis"
  execute :: "nat \<Rightarrow> string \<Rightarrow> Analysis \<Rightarrow> error + string"
  followUps :: "nat \<Rightarrow> string \<Rightarrow> string list \<Rightarrow> string list \<Rightarrow> string \<Rightarrow> error + string list"

text \<open>An \<^verbatim>\<open>async\<close> function either returns a value or throws; both leave a state behind.\<close>

datatype 'a result = Return 'a state | Throw error state

fun state_of :: "'a result \<Rightarrow> state" where
  "state_of (Return _ s) = s"
| "state_of (Throw _ s) = s"

definition TIMEOUT_LONG :: nat where
  "TIMEOUT_LONG = 1000"

definition TIMOUT_SHORT :: nat where
  "TIMOUT_SHORT = 800"

section \<open>Collaborators\<close>

definition emit :: "event \<Rightarrow> state \<Rightarrow> state" where
  "emit e s = s\<lparr>trace := trace s @ [e]\<rparr>"

definition messages :: "state \<Rightarrow> Message list" where
  "messages s = [m. Msg m \<leftarrow> trace s]"

text \<open>\<^verbatim>\<open>await new Promise((r) => setTimeout(r, ms))\<close>\<close>

definition sleep :: "nat \<Rightarrow> state \<Rightarrow> state" where
  "sleep ms s = emit (Timeout ms) s"

text \<open>
  The callbacks index.tsx builds the agent with. \<^verbatim>\<open>shutdown\<close> is \<^verbatim>\<open>() => setAgent(null)\<close>:
  the page lets go of the agent. \<^verbatim>\<open>handlePause\<close> updates the user interface only.
\<close>

definition setAgent :: "bool \<Rightarrow> state \<Rightarrow> state" where
  "setAgent held s = s\<lparr>pageAgent := held\<rparr>"

definition shutdown :: "state \<Rightarrow> state" where
  "shutdown s = setAgent False (emit Shutdown s)"

definition handlePause :: "AgentPlaybackControl \<Rightarrow> state \<Rightarrow> state" where
  "handlePause pc s = emit (HandlePause pc) s"

text \<open>\<^verbatim>\<open>v1().toString()\<close>: a fresh identifier.\<close>

definition v1 :: "state \<Rightarrow> nat \<times> state" where
  "v1 s = (nextId s, s\<lparr>nextId := nextId s + 1\<rparr>)"

text \<open>
  Modelled from the spec: the message store (\<^verbatim>\<open>useMessageStore\<close>) is not among the
  sources. Section 4.2 gives the task store the operations \<^verbatim>\<open>append(task)\<close> and
  \<^verbatim>\<open>updateStatus(id, status, info?)\<close>, holding tasks in insertion order with no deletion;
  section 3 says that a task is created when enqueued, always \<^verbatim>\<open>started\<close>.
\<close>

definition updateTaskStatus :: "Task \<Rightarrow> state \<Rightarrow> state" where
  "updateTaskStatus t s =
     s\<lparr>tasks := map (\<lambda>u. if taskId u = taskId t
                           then u\<lparr>status := status t,
                                  info := (case info t of None \<Rightarrow> info u | Some r \<Rightarrow> Some r)\<rparr>
                           else u) (tasks s)\<rparr>"

text \<open>
  Modelled from the spec: \<^verbatim>\<open>addMessage\<close> of the absent message store. The message joins
  the messages shown (here: the trace), and a task message that announces a new task
  (status \<^verbatim>\<open>started\<close>) is appended to the task list.
\<close>

definition addMessage :: "Message \<Rightarrow> state \<Rightarrow> state" where
  "addMessage m s =
     (let s' = emit (Msg m) s in
      case m of
        TaskMessage t \<Rightarrow> if status t = Started then s'\<lparr>tasks := tasks s' @ [t]\<rparr> else s'
      | _ \<Rightarrow> s')"

text \<open>\<^verbatim>\<open>handleAddMessage\<close> of index.tsx, the \<^verbatim>\<open>renderMessage\<close> the agent is built with.\<close>

definition handleAddMessage :: "Message \<Rightarrow> state \<Rightarrow> state" where
  "handleAddMessage m s =
     addMessage m (case m of TaskMessage t \<Rightarrow> updateTaskStatus t s | _ \<Rightarrow> s)"

text \<open>
  Modelled from the spec: the class \<^verbatim>\<open>MessageService\<close> is not among the sources. Section 6
  has the event sink accept every message in emission order, and section 3 lists the kinds
  goal, thinking, task, analysis, error, completed, loop-limit and manual-shutdown; each
  \<^verbatim>\<open>send...\<close> method hands one message of its kind to \<^verbatim>\<open>renderMessage\<close>.
\<close>

definition setIsRunning :: "bool \<Rightarrow> state \<Rightarrow> state" where
  "setIsRunning b s = s\<lparr>serviceIsRunning := b\<rparr>"

text \<open>
  Modelled from the spec: \<^verbatim>\<open>sendMessage\<close> of the absent \<^verbatim>\<open>MessageService\<close>. The spec
  lets every emitted message reach the sink, so the flag set by \<^verbatim>\<open>setIsRunning\<close> is
  recorded and not consulted here.
\<close>

definition sendMessage :: "Message \<Rightarrow> state \<Rightarrow> state" where
  "sendMessage m s = handleAddMessage m s"

definition sendGoalMessage :: "string \<Rightarrow> state \<Rightarrow> state" where
  "sendGoalMessage g s = sendMessage (GoalMessage g) s"

definition sendThinkingMessage :: "state \<Rightarrow> state" where
  "sendThinkingMessage s = sendMessage ThinkingMessage s"

definition sendAnalysisMessage :: "Analysis \<Rightarrow> state \<Rightarrow> state" where
  "sendAnalysisMessage a s = sendMessage (AnalysisMessage a) s"

definition sendErrorMessage :: "string \<Rightarrow> state \<Rightarrow> state" where
  "sendErrorMessage e s = sendMessage (ErrorMessage e) s"

definition sendCompletedMessage :: "state \<Rightarrow> state" where
  "sendCompletedMessage s = sendMessage CompletedMessage s"

definition sendLoopMessage :: "state \<Rightarrow> state" where
  "sendLoopMessage s = sendMessage LoopMessage s"

definition sendManualShutdownMessage :: "state \<Rightarrow> state" where
  "sendManualShutdownMessage s = sendMessage ManualShutdownMessage s"

section \<open>The agent\<close>

text \<open>\<^verbatim>\<open>onApiError\<close>: shut down, then rethrow.\<close>

definition onApiError :: "error \<Rightarrow> state \<Rightarrow> 'a result" where
  "onApiError e s = Throw e (shutdown s)"

text \<open>
  Modelled from the spec: the class \<^verbatim>\<open>AgentApi\<close> is not among the sources. The agent
  builds it with \<^verbatim>\<open>onApiError\<close> as its error handler, and section 4.1 says of a failing
  backend call that shutdown is invoked and the failure is re-raised: a request that fails
  goes through the handler.
\<close>

definition post :: "request \<Rightarrow> error + 'a \<Rightarrow> state \<Rightarrow> 'a result" where
  "post rq answer s =
     (let s' = (emit (Request rq) s)\<lparr>requests := requests s + 1\<rparr> in
      case answer of Inl e \<Rightarrow> onApiError e s' | Inr v \<Rightarrow> Return v s')"

definition getInitialTasks :: "env \<Rightarrow> state \<Rightarrow> string list result" where
  "getInitialTasks E s = post (GetInitialTasks (goal s)) (decompose E (requests s) (goal s)) s"

definition analyzeTask :: "env \<Rightarrow> string \<Rightarrow> state \<Rightarrow> Analysis result" where
  "analyzeTask E v s = post (AnalyzeTask v) (analyze E (requests s) v) s"

definition executeTask :: "env \<Rightarrow> string \<Rightarrow> Analysis \<Rightarrow> state \<Rightarrow> string result" where
  "executeTask E v a s = post (ExecuteTask v a) (execute E (requests s) v a) s"

definition getAdditionalTasks ::
  "env \<Rightarrow> string \<Rightarrow> string list \<Rightarrow> string list \<Rightarrow> string \<Rightarrow> state \<Rightarrow> string list result" where
  "getAdditionalTasks E cur remaining completed res s =
     post (GetAdditionalTasks cur remaining completed res)
          (followUps E (requests s) cur remaining completed res) s"

text \<open>
  The constructor. \<^verbatim>\<open>mode || AUTOMATIC_MODE\<close> and the condition
  \<^verbatim>\<open>playbackControl || this.mode == PAUSE_MODE\<close> test their left operand for truthiness;
  an absent argument is \<^verbatim>\<open>undefined\<close>, and whether a supplied playback value is
  truthy depends on the constants of the absent \<^verbatim>\<open>agentTypes\<close>, so it is a parameter.
  The store, the trace and the counters belong to the surroundings \<open>w\<close> and stay.
\<close>

definition constructor ::
  "(AgentPlaybackControl \<Rightarrow> bool) \<Rightarrow> string \<Rightarrow> int option \<Rightarrow> AgentMode option \<Rightarrow>
   AgentPlaybackControl option \<Rightarrow> state \<Rightarrow> state" where
  "constructor truthy g cml m pc w =
     (let mode' = (case m of None \<Rightarrow> AUTOMATIC_MODE | Some x \<Rightarrow> x) in
      w\<lparr>goal := g,
        completedTasks := [],
        customMaxLoops := cml,
        isRunning := False,
        numLoops := 0,
        mode := mode',
        playbackControl :=
          (if (case pc of None \<Rightarrow> False | Some p \<Rightarrow> truthy p) \<or> mode' = PAUSE_MODE
           then AGENT_PAUSE else AGENT_PLAY),
        serviceIsRunning := False\<rparr>)"

definition getRemainingTasks :: "state \<Rightarrow> Task list" where
  "getRemainingTasks s = filter (\<lambda>t. status t = Started) (tasks s)"

definition conditionalPause :: "state \<Rightarrow> state" where
  "conditionalPause s =
     (if mode s \<noteq> PAUSE_MODE then s
      else
        let s1 = s\<lparr>isRunning := \<not> (playbackControl s = AGENT_PAUSE)\<rparr> in
        if playbackControl s1 = AGENT_PLAY then s1\<lparr>playbackControl := AGENT_PAUSE\<rparr> else s1)"

text \<open>\<^verbatim>\<open>customMaxLoops || DEFAULT_MAX_LOOPS_FREE\<close>: an absent or zero setting is falsy.\<close>

definition maxLoops :: "env \<Rightarrow> state \<Rightarrow> int" where
  "maxLoops E s =
     (case customMaxLoops s of
        None \<Rightarrow> DEFAULT_MAX_LOOPS_FREE E
      | Some n \<Rightarrow> if n = 0 then DEFAULT_MAX_LOOPS_FREE E else n)"

definition updatePlayBackControl :: "AgentPlaybackControl \<Rightarrow> state \<Rightarrow> state" where
  "updatePlayBackControl pc s = s\<lparr>playbackControl := pc\<rparr>"

definition updateIsRunning :: "bool \<Rightarrow> state \<Rightarrow> state" where
  "updateIsRunning b s = (setIsRunning b s)\<lparr>isRunning := b\<rparr>"

definition stopAgent :: "state \<Rightarrow> state" where
  "stopAgent s = shutdown (updateIsRunning False (sendManualShutdownMessage s))"

definition getMessageFromError :: "env \<Rightarrow> error \<Rightarrow> string" where
  "getMessageFromError E e =
     (let message = ''ERROR_RETRIEVE_INITIAL_TASKS'' in
      let message =
        (case e of
           AxiosError st \<Rightarrow>
             (let message = (if st = Some 429 then ''ERROR_API_KEY_QUOTA'' else message) in
              if st = Some 404 then ''ERROR_OPENAI_API_KEY_NO_GPT4''
              else ''ERROR_ACCESSING_OPENAI_API_KEY'')
         | OtherError _ \<Rightarrow> message)
      in translate E message ''errors'')"

text \<open>
  The \<^verbatim>\<open>for (const value of ...)\<close> loop of \<^verbatim>\<open>startGoal\<close> and of \<^verbatim>\<open>loop\<close>: a short
  delay, then a \<^verbatim>\<open>started\<close> task message under a fresh identifier.
\<close>

fun sendStarted :: "string list \<Rightarrow> state \<Rightarrow> state" where
  "sendStarted [] s = s"
| "sendStarted (v # vs) s =
     (let s1 = sleep TIMOUT_SHORT s;
          (i, s2) = v1 s1
      in sendStarted vs
           (sendMessage (TaskMessage \<lparr>taskId = i, taskValue = v, status = Started, info = None\<rparr>) s2))"

definition startGoal :: "env \<Rightarrow> state \<Rightarrow> state" where
  "startGoal E s =
     (let s1 = sendGoalMessage (goal s) s;
          s2 = sendThinkingMessage s1
      in case getInitialTasks E s2 of
           Return taskValues s3 \<Rightarrow> sendStarted taskValues s3
         | Throw e s3 \<Rightarrow> shutdown (sendErrorMessage (getMessageFromError E e) s3))"

text \<open>
  Lines 145 to 176 of \<^verbatim>\<open>loop\<close>: record the finished task, ask for follow-up tasks, and
  absorb a failure of that request in the \<^verbatim>\<open>catch\<close> block.
\<close>

definition addNewTasks :: "env \<Rightarrow> Task \<Rightarrow> string \<Rightarrow> state \<Rightarrow> state" where
  "addNewTasks E currentTask res s =
     (let s1 = sleep TIMEOUT_LONG s;
          s2 = sendThinkingMessage s1
      in case getAdditionalTasks E (taskValue currentTask)
                (map taskValue (getRemainingTasks s2)) (completedTasks s2) res s2 of
           Return newTasks s3 \<Rightarrow>
             (let s4 = sendStarted newTasks s3 in
              if newTasks = []
              then sendMessage (TaskMessage (currentTask\<lparr>status := Final\<rparr>)) s4
              else s4)
         | Throw e s3 \<Rightarrow>
             sendMessage (TaskMessage (currentTask\<lparr>status := Final\<rparr>))
               (sendErrorMessage (translate E ''ERROR_ADDING_ADDITIONAL_TASKS'' ''errors'') s3))"

text \<open>
  Lines 123 to 176 of \<^verbatim>\<open>loop\<close>, one task cycle. \<^verbatim>\<open>getRemainingTasks()[0]\<close> is
  \<^verbatim>\<open>undefined\<close> on an empty list: the executing message is then an object with a status
  only, the thinking message follows, and reading \<^verbatim>\<open>currentTask.value\<close> at line 133 throws
  a TypeError before any request is made. The check at line 109 keeps \<^verbatim>\<open>loop\<close> from
  getting there.
\<close>

definition cycle :: "env \<Rightarrow> state \<Rightarrow> unit result" where
  "cycle E s =
     (let s1 = sleep TIMEOUT_LONG s in
      case getRemainingTasks s1 of
        [] \<Rightarrow>
          Throw (OtherError ''TypeError'')
            (sendThinkingMessage (sendMessage (BareMessage Executing) s1))
      | currentTask # _ \<Rightarrow>
          (let s2 = sendMessage (TaskMessage (currentTask\<lparr>status := Executing\<rparr>)) s1;
               s3 = sendThinkingMessage s2
           in case analyzeTask E (taskValue currentTask) s3 of
                Throw e s4 \<Rightarrow> Throw e s4
              | Return analysis s4 \<Rightarrow>
                  (let s5 = sendAnalysisMessage analysis s4 in
                   case executeTask E (taskValue currentTask) analysis s5 of
                     Throw e s6 \<Rightarrow> Throw e s6
                   | Return res s6 \<Rightarrow>
                       (let s7 = sendMessage
                                   (TaskMessage (currentTask\<lparr>info := Some res, status := Completed\<rparr>)) s6;
                            s8 = s7\<lparr>completedTasks := completedTasks s7 @ [taskValue currentTask]\<rparr>
                        in Return () (addNewTasks E currentTask res s8)))))"

text \<open>
  \<^verbatim>\<open>loop\<close>: the checks at the head of an iteration, one task cycle, and the call of
  itself at line 177. Every pass that reaches the cycle has counted itself in
  \<^verbatim>\<open>numLoops\<close>, which the budget bounds: the recursion ends.
\<close>

function loop :: "env \<Rightarrow> state \<Rightarrow> unit result" where
  "loop E s =
     (let s1 = conditionalPause s in
      if \<not> isRunning s1 then Return () s1
      else if length (getRemainingTasks s1) = 0
      then Return () (shutdown (sendCompletedMessage s1))
      else
        (let s2 = s1\<lparr>numLoops := numLoops s1 + 1\<rparr> in
         if numLoops s2 > maxLoops E s2
         then Return () (shutdown (sendLoopMessage s2))
         else (case cycle E s2 of
                 Throw e s3 \<Rightarrow> Throw e s3
               | Return _ s3 \<Rightarrow> loop E s3)))"
  by pat_completeness auto
termination
proof (relation "measure (\<lambda>(E, s). nat (maxLoops E s + 1 - numLoops s))")
  show "wf (measure (\<lambda>(E, s). nat (maxLoops E s + 1 - numLoops s)))"
    by simp
next
  fix E :: env and s s1 s2 :: state and u :: unit and s3 :: state
  assume s1: "s1 = conditionalPause s"
    and s2: "s2 = s1\<lparr>numLoops := numLoops s1 + 1\<rparr>"
    and budget: "\<not> maxLoops E s2 < numLoops s2"
    and ret: "cycle E s2 = Return u s3"
  have msg: "numLoops (sendMessage m t) = numLoops t \<and>
             customMaxLoops (sendMessage m t) = customMaxLoops t" for m t
    by (simp add: sendMessage_def handleAddMessage_def addMessage_def updateTaskStatus_def
        emit_def Let_def split: Message.split)
  have started: "numLoops (sendStarted vs t) = numLoops t \<and>
                 customMaxLoops (sendStarted vs t) = customMaxLoops t" for vs t
    by (induction vs arbitrary: t) (simp_all add: msg sleep_def v1_def emit_def)
  have more: "numLoops (addNewTasks E c r t) = numLoops t \<and>
              customMaxLoops (addNewTasks E c r t) = customMaxLoops t" for c r t
    by (simp add: addNewTasks_def getAdditionalTasks_def sendThinkingMessage_def
        sendErrorMessage_def post_def onApiError_def shutdown_def setAgent_def msg started sleep_def
        emit_def Let_def split: sum.split)
  have "numLoops s3 = numLoops s2 \<and> customMaxLoops s3 = customMaxLoops s2"
    using ret
    by (auto simp add: cycle_def analyzeTask_def executeTask_def sendThinkingMessage_def
        sendAnalysisMessage_def post_def onApiError_def shutdown_def setAgent_def msg more sleep_def
        emit_def Let_def split: list.splits sum.splits)
  then have "maxLoops E s3 = maxLoops E s2" "numLoops s3 = numLoops s2"
    by (simp_all add: maxLoops_def)
  moreover have "maxLoops E s2 = maxLoops E s" "numLoops s2 = numLoops s + 1"
    by (simp_all add: s1 s2 maxLoops_def conditionalPause_def Let_def)
  ultimately show "((E, s3), (E, s)) \<in> measure (\<lambda>(E, s). nat (maxLoops E s + 1 - numLoops s))"
    using budget by simp
qed

declare loop.simps [simp del]

definition run :: "env \<Rightarrow> state \<Rightarrow> unit result" where
  "run E s =
     (let s1 = (if \<not> isRunning s then startGoal E (updateIsRunning True s) else s) in
      case loop E s1 of
        Throw e s2 \<Rightarrow> Throw e s2
      | Return _ s2 \<Rightarrow>
          Return () (if mode s2 = PAUSE_MODE \<and> \<not> isRunning s2
                     then handlePause (playbackControl s2) s2 else s2))"

text \<open>
  \<^verbatim>\<open>handleContinue\<close> of index.tsx, the resume button of step-paused mode: nothing happens
  when the page holds no agent (its update of the user-interface store is left out).
\<close>

definition handleContinue :: "env \<Rightarrow> state \<Rightarrow> unit result" where
  "handleContinue E s =
     (if \<not> pageAgent s then Return () s
      else run E (updateIsRunning True (updatePlayBackControl AGENT_PLAY s)))"

section \<open>A scenario\<close>

text \<open>
  The scenario of the specification: the goal ``Plan a trip to Paris'' is decomposed into
  three tasks, and booking the flights yields one follow-up task. A second backend refuses
  the decomposition with status 429. The states are the ones the agent reaches in that
  scenario; they serve as concrete inputs below.
\<close>

text \<open>
  The surroundings before any agent exists: an empty store, nothing emitted. The page holds
  a new agent once \<^verbatim>\<open>handleNewGoal\<close> has called \<^verbatim>\<open>setAgent(newAgent)\<close>.
\<close>

definition idle :: state where
  "idle = \<lparr>goal = [], completedTasks = [], customMaxLoops = None,
            isRunning = False, numLoops = 0, mode = AUTOMATIC_MODE,
            playbackControl = AGENT_PLAY, serviceIsRunning = False, tasks = [], trace = [],
            nextId = 0, requests = 0, pageAgent = False\<rparr>"

definition paris :: env where
  "paris = \<lparr>DEFAULT_MAX_LOOPS_FREE = 4,
             translate = (\<lambda>key ns. ns @ '':'' @ key),
             decompose = (\<lambda>n g. Inr [''Book flights'', ''Book hotel'', ''Draft itinerary'']),
             analyze = (\<lambda>n v. Inr ''reason''),
             execute = (\<lambda>n v a. Inr (''done '' @ v)),
             followUps = (\<lambda>n cur remaining completed r.
                if cur = ''Book flights'' then Inr [''Compare airlines''] else Inr [])\<rparr>"

definition offline :: env where
  "offline = paris\<lparr>decompose := (\<lambda>n g. Inl (AxiosError (Some 429)))\<rparr>"

text \<open>Backends like the first that never propose a follow-up task, or fail to.\<close>

definition frugal :: env where
  "frugal = paris\<lparr>followUps := (\<lambda>n cur remaining completed r. Inr [])\<rparr>"

definition flaky :: env where
  "flaky = paris\<lparr>followUps := (\<lambda>n cur remaining completed r. Inl (AxiosError None))\<rparr>"

definition automatic :: state where
  "automatic =
     setAgent True (constructor (\<lambda>_. True) ''Plan a trip to Paris'' None None None idle)"

definition stepPaused :: state where
  "stepPaused =
     setAgent True
       (constructor (\<lambda>_. True) ''Plan a trip to Paris'' None (Some PAUSE_MODE) None idle)"

definition flights :: Task where
  "flights = \<lparr>taskId = 0, taskValue = ''Book flights'', status = Started, info = None\<rparr>"

definition hotel :: Task where
  "hotel = \<lparr>taskId = 1, taskValue = ''Book hotel'', status = Started, info = None\<rparr>"

definition itinerary :: Task where
  "itinerary = \<lparr>taskId = 2, taskValue = ''Draft itinerary'', status = Started, info = None\<rparr>"

text \<open>After the start phase in automatic mode, and after the first \<^verbatim>\<open>run\<close> in step-paused mode.\<close>

definition planned :: state where
  "planned =
     \<lparr>goal = ''Plan a trip to Paris'', completedTasks = [], customMaxLoops = None,
      isRunning = True, numLoops = 0, mode = AUTOMATIC_MODE, playbackControl = AGENT_PLAY,
      serviceIsRunning = True, tasks = [flights, hotel, itinerary],
      trace = [Msg (GoalMessage ''Plan a trip to Paris''), Msg ThinkingMessage,
               Request (GetInitialTasks ''Plan a trip to Paris''),
               Timeout 800, Msg (TaskMessage flights),
               Timeout 800, Msg (TaskMessage hotel),
               Timeout 800, Msg (TaskMessage itinerary)],
      nextId = 3, requests = 1, pageAgent = True\<rparr>"

definition suspended :: state where
  "suspended =
     planned\<lparr>isRunning := False, mode := PAUSE_MODE, playbackControl := AGENT_PAUSE,
             trace := trace planned @ [HandlePause AGENT_PAUSE]\<rparr>"

section \<open>Observations\<close>

text \<open>Functions that read a trace; the statements below are written with them.\<close>

text \<open>The messages among a list of events.\<close>

definition msgs :: "event list \<Rightarrow> Message list" where
  "msgs es = [m. Msg m \<leftarrow> es]"

text \<open>Whether a message is of the error kind.\<close>

fun isError :: "Message \<Rightarrow> bool" where
  "isError (ErrorMessage _) = True"
| "isError _ = False"

text \<open>The events of the \<^verbatim>\<open>for\<close> loop over new task values, identifiers counting up from \<open>i\<close>.\<close>

fun startedEvents :: "nat \<Rightarrow> string list \<Rightarrow> event list" where
  "startedEvents i [] = []"
| "startedEvents i (v # vs) =
     Timeout TIMOUT_SHORT
       # Msg (TaskMessage \<lparr>taskId = i, taskValue = v, status = Started, info = None\<rparr>)
       # startedEvents (Suc i) vs"

text \<open>The statuses that the task messages about task \<open>i\<close> carry, in the order of emission.\<close>

fun taskStatuses :: "nat \<Rightarrow> event list \<Rightarrow> TaskStatus list" where
  "taskStatuses i [] = []"
| "taskStatuses i (Msg (TaskMessage t) # es) =
     (if taskId t = i then status t # taskStatuses i es else taskStatuses i es)"
| "taskStatuses i (_ # es) = taskStatuses i es"

text \<open>The identifiers that the task messages of a trace are about.\<close>

fun taskIds :: "event list \<Rightarrow> nat list" where
  "taskIds [] = []"
| "taskIds (Msg (TaskMessage t) # es) = taskId t # taskIds es"
| "taskIds (_ # es) = taskIds es"

text \<open>The messages a task at a given status has behind it.\<close>

fun lifecycle :: "TaskStatus \<Rightarrow> TaskStatus list" where
  "lifecycle Started = [Started]"
| "lifecycle Executing = [Started, Executing]"
| "lifecycle Completed = [Started, Executing, Completed]"
| "lifecycle Final = [Started, Executing, Completed, Final]"

text \<open>
  Store and trace agree: identifiers are distinct and were drawn from the counter, the
  messages about a stored task are the ones its status has behind it, and every task message
  is about a stored task. A new page (empty store, empty trace) is consistent.
\<close>

definition consistent :: "state \<Rightarrow> bool" where
  "consistent s \<longleftrightarrow>
     distinct (map taskId (tasks s)) \<and>
     list_all (\<lambda>t. taskId t < nextId s \<and>
                    taskStatuses (taskId t) (trace s) = lifecycle (status t)) (tasks s) \<and>
     set (taskIds (trace s)) \<subseteq> set (map taskId (tasks s))"

text \<open>Task \<open>i\<close> is in the consistent store, at status \<open>st\<close>.\<close>

definition ready :: "nat \<Rightarrow> TaskStatus \<Rightarrow> state \<Rightarrow> bool" where
  "ready i st s \<longleftrightarrow>
     consistent s \<and> i \<in> set (map taskId (tasks s)) \<and>
     list_all (\<lambda>u. taskId u = i \<longrightarrow> status u = st) (tasks s)"

section \<open>Facts about the steps\<close>

subsection \<open>What each step leaves alone\<close>

lemma emit_fields [simp]:
  "goal (emit e s) = goal s"
  "completedTasks (emit e s) = completedTasks s"
  "customMaxLoops (emit e s) = customMaxLoops s"
  "isRunning (emit e s) = isRunning s"
  "numLoops (emit e s) = numLoops s"
  "mode (emit e s) = mode s"
  "playbackControl (emit e s) = playbackControl s"
  "serviceIsRunning (emit e s) = serviceIsRunning s"
  "tasks (emit e s) = tasks s"
  "nextId (emit e s) = nextId s"
  "requests (emit e s) = requests s"
  "pageAgent (emit e s) = pageAgent s"
  "trace (emit e s) = trace s @ [e]"
  by (simp_all add: emit_def)

lemma sendMessage_fields [simp]:
  "goal (sendMessage m s) = goal s"
  "completedTasks (sendMessage m s) = completedTasks s"
  "customMaxLoops (sendMessage m s) = customMaxLoops s"
  "isRunning (sendMessage m s) = isRunning s"
  "numLoops (sendMessage m s) = numLoops s"
  "mode (sendMessage m s) = mode s"
  "playbackControl (sendMessage m s) = playbackControl s"
  "serviceIsRunning (sendMessage m s) = serviceIsRunning s"
  "nextId (sendMessage m s) = nextId s"
  "requests (sendMessage m s) = requests s"
  "pageAgent (sendMessage m s) = pageAgent s"
  "trace (sendMessage m s) = trace s @ [Msg m]"
  by (simp_all add: sendMessage_def handleAddMessage_def addMessage_def updateTaskStatus_def
      Let_def split: Message.split)

lemma sendMessage_tasks:
  "tasks (sendMessage m s) =
     (case m of
        TaskMessage t \<Rightarrow>
          map (\<lambda>u. if taskId u = taskId t
                   then u\<lparr>status := status t,
                          info := (case info t of None \<Rightarrow> info u | Some r \<Rightarrow> Some r)\<rparr>
                   else u) (tasks s) @ (if status t = Started then [t] else [])
      | _ \<Rightarrow> tasks s)"
  by (simp add: sendMessage_def handleAddMessage_def addMessage_def updateTaskStatus_def
      emit_def Let_def split: Message.split)

lemma sendMessage_plain:
  "\<forall>t. m \<noteq> TaskMessage t \<Longrightarrow> sendMessage m s = emit (Msg m) s"
  by (cases m) (simp_all add: sendMessage_def handleAddMessage_def addMessage_def)

lemma sendStarted_fields [simp]:
  "goal (sendStarted vs s) = goal s"
  "completedTasks (sendStarted vs s) = completedTasks s"
  "customMaxLoops (sendStarted vs s) = customMaxLoops s"
  "isRunning (sendStarted vs s) = isRunning s"
  "numLoops (sendStarted vs s) = numLoops s"
  "mode (sendStarted vs s) = mode s"
  "playbackControl (sendStarted vs s) = playbackControl s"
  "serviceIsRunning (sendStarted vs s) = serviceIsRunning s"
  "requests (sendStarted vs s) = requests s"
  "pageAgent (sendStarted vs s) = pageAgent s"
  by (induction vs arbitrary: s; simp add: sleep_def v1_def)+

lemma post_fields [simp]:
  "goal (state_of (post rq a s)) = goal s"
  "completedTasks (state_of (post rq a s)) = completedTasks s"
  "customMaxLoops (state_of (post rq a s)) = customMaxLoops s"
  "isRunning (state_of (post rq a s)) = isRunning s"
  "numLoops (state_of (post rq a s)) = numLoops s"
  "mode (state_of (post rq a s)) = mode s"
  "playbackControl (state_of (post rq a s)) = playbackControl s"
  "serviceIsRunning (state_of (post rq a s)) = serviceIsRunning s"
  "tasks (state_of (post rq a s)) = tasks s"
  "nextId (state_of (post rq a s)) = nextId s"
  "requests (state_of (post rq a s)) = requests s + 1"
  by (simp_all add: post_def onApiError_def shutdown_def setAgent_def Let_def split: sum.split)

lemma post_Inr: "post rq (Inr v) s = Return v ((emit (Request rq) s)\<lparr>requests := requests s + 1\<rparr>)"
  by (simp add: post_def)

lemma post_Inl:
  "post rq (Inl e) s =
     Throw e ((emit Shutdown ((emit (Request rq) s)\<lparr>requests := requests s + 1\<rparr>))
                \<lparr>pageAgent := False\<rparr>)"
  by (simp add: post_def onApiError_def shutdown_def setAgent_def)

lemmas send_defs = sendGoalMessage_def sendThinkingMessage_def sendAnalysisMessage_def
  sendErrorMessage_def sendCompletedMessage_def sendLoopMessage_def sendManualShutdownMessage_def

lemma addNewTasks_fields [simp]:
  "goal (addNewTasks E c r s) = goal s"
  "completedTasks (addNewTasks E c r s) = completedTasks s"
  "customMaxLoops (addNewTasks E c r s) = customMaxLoops s"
  "isRunning (addNewTasks E c r s) = isRunning s"
  "numLoops (addNewTasks E c r s) = numLoops s"
  "mode (addNewTasks E c r s) = mode s"
  "playbackControl (addNewTasks E c r s) = playbackControl s"
  "serviceIsRunning (addNewTasks E c r s) = serviceIsRunning s"
  "requests (addNewTasks E c r s) = requests s + 1"
  by (simp_all add: addNewTasks_def getAdditionalTasks_def send_defs post_def onApiError_def
      shutdown_def setAgent_def sleep_def Let_def split: sum.split)

lemma cycle_fields [simp]:
  "goal (state_of (cycle E s)) = goal s"
  "customMaxLoops (state_of (cycle E s)) = customMaxLoops s"
  "isRunning (state_of (cycle E s)) = isRunning s"
  "numLoops (state_of (cycle E s)) = numLoops s"
  "mode (state_of (cycle E s)) = mode s"
  "playbackControl (state_of (cycle E s)) = playbackControl s"
  "serviceIsRunning (state_of (cycle E s)) = serviceIsRunning s"
  by (simp_all add: cycle_def analyzeTask_def executeTask_def send_defs post_def onApiError_def
      shutdown_def setAgent_def sleep_def Let_def split: list.split sum.split)

lemma maxLoops_cycle [simp]: "maxLoops E (state_of (cycle E s)) = maxLoops E s"
  by (simp add: maxLoops_def)

lemma conditionalPause_auto: "mode s \<noteq> PAUSE_MODE \<Longrightarrow> conditionalPause s = s"
  by (simp add: conditionalPause_def)

lemma conditionalPause_pause:
  "mode s = PAUSE_MODE \<Longrightarrow> playbackControl s = AGENT_PAUSE \<Longrightarrow>
   conditionalPause s = s\<lparr>isRunning := False\<rparr>"
  by (simp add: conditionalPause_def)

lemma conditionalPause_play:
  "mode s = PAUSE_MODE \<Longrightarrow> playbackControl s = AGENT_PLAY \<Longrightarrow>
   conditionalPause s = s\<lparr>isRunning := True, playbackControl := AGENT_PAUSE\<rparr>"
  by (simp add: conditionalPause_def)

lemma loop_suspended:
  "mode s = PAUSE_MODE \<Longrightarrow> playbackControl s = AGENT_PAUSE \<Longrightarrow>
   loop E s = Return () (s\<lparr>isRunning := False\<rparr>)"
  by (subst loop.simps) (simp add: conditionalPause_pause)

subsection \<open>What each step emits\<close>

lemma trace_sendStarted: "trace (sendStarted vs s) = trace s @ startedEvents (nextId s) vs"
  by (induction vs arbitrary: s) (simp_all add: sleep_def v1_def)

lemma nextId_sendStarted [simp]: "nextId (sendStarted vs s) = nextId s + length vs"
  by (induction vs arbitrary: s) (simp_all add: sleep_def v1_def)

lemma getRemainingTasks_emit [simp]: "getRemainingTasks (emit e s) = getRemainingTasks s"
  by (simp add: getRemainingTasks_def)

lemma trace_addNewTasks:
  "trace (addNewTasks E c r s) =
     trace s @
     [Timeout TIMEOUT_LONG, Msg ThinkingMessage,
      Request (GetAdditionalTasks (taskValue c) (map taskValue (getRemainingTasks s))
                 (completedTasks s) r)] @
     (case followUps E (requests s) (taskValue c) (map taskValue (getRemainingTasks s))
             (completedTasks s) r of
        Inr newTasks \<Rightarrow>
          startedEvents (nextId s) newTasks @
          (if newTasks = [] then [Msg (TaskMessage (c\<lparr>status := Final\<rparr>))] else [])
      | Inl e \<Rightarrow>
          [Shutdown, Msg (ErrorMessage (translate E ''ERROR_ADDING_ADDITIONAL_TASKS'' ''errors'')),
           Msg (TaskMessage (c\<lparr>status := Final\<rparr>))])"
  by (simp add: addNewTasks_def getAdditionalTasks_def send_defs sendMessage_plain sleep_def
      post_Inr post_Inl trace_sendStarted Let_def split: sum.split)

subsection \<open>One pass of the loop, one task cycle\<close>

lemma getRemainingTasks_conditionalPause [simp]:
  "getRemainingTasks (conditionalPause s) = getRemainingTasks s"
  by (simp add: getRemainingTasks_def conditionalPause_def Let_def)

lemma conditionalPause_fields [simp]:
  "numLoops (conditionalPause s) = numLoops s"
  "customMaxLoops (conditionalPause s) = customMaxLoops s"
  "tasks (conditionalPause s) = tasks s"
  "trace (conditionalPause s) = trace s"
  "requests (conditionalPause s) = requests s"
  "completedTasks (conditionalPause s) = completedTasks s"
  "mode (conditionalPause s) = mode s"
  "nextId (conditionalPause s) = nextId s"
  "goal (conditionalPause s) = goal s"
  by (simp_all add: conditionalPause_def Let_def)

lemma maxLoops_upd [simp]:
  "maxLoops E (s\<lparr>numLoops := n\<rparr>) = maxLoops E s"
  "maxLoops E (s\<lparr>isRunning := b\<rparr>) = maxLoops E s"
  "maxLoops E (s\<lparr>playbackControl := p\<rparr>) = maxLoops E s"
  "maxLoops E (s\<lparr>pageAgent := b\<rparr>) = maxLoops E s"
  "maxLoops E (conditionalPause s) = maxLoops E s"
  by (simp_all add: maxLoops_def)

lemma getRemainingTasks_upd [simp]:
  "getRemainingTasks (s\<lparr>numLoops := n\<rparr>) = getRemainingTasks s"
  "getRemainingTasks (s\<lparr>isRunning := b\<rparr>) = getRemainingTasks s"
  "getRemainingTasks (s\<lparr>playbackControl := p\<rparr>) = getRemainingTasks s"
  "getRemainingTasks (s\<lparr>pageAgent := b\<rparr>) = getRemainingTasks s"
  "getRemainingTasks (emit e s) = getRemainingTasks s"
  by (simp_all add: getRemainingTasks_def)

lemma loop_iteration:
  assumes "isRunning (conditionalPause s)" and "getRemainingTasks s \<noteq> []"
  shows "loop E s =
           (if maxLoops E s < numLoops s + 1
            then Return () (shutdown (sendLoopMessage ((conditionalPause s)\<lparr>numLoops := numLoops s + 1\<rparr>)))
            else case cycle E ((conditionalPause s)\<lparr>numLoops := numLoops s + 1\<rparr>) of
                   Throw e s' \<Rightarrow> Throw e s'
                 | Return _ s' \<Rightarrow> loop E s')"
  using assms by (subst loop.simps) (simp add: Let_def)

lemma filter_advance:
  "st \<noteq> Started \<Longrightarrow>
   filter (\<lambda>t. status t = Started)
     (map (\<lambda>u. if taskId u = i then u\<lparr>status := st, info := f u\<rparr> else u) xs) =
   filter (\<lambda>u. taskId u \<noteq> i) (filter (\<lambda>t. status t = Started) xs)"
  by (induction xs) simp_all

lemma getRemainingTasks_advance:
  "status t \<noteq> Started \<Longrightarrow>
   getRemainingTasks (sendMessage (TaskMessage t) s) =
     filter (\<lambda>u. taskId u \<noteq> taskId t) (getRemainingTasks s)"
  by (simp add: getRemainingTasks_def sendMessage_tasks filter_advance)

lemma ids_advance:
  "status t \<noteq> Started \<Longrightarrow>
   map taskId (tasks (sendMessage (TaskMessage t) s)) = map taskId (tasks s)"
  by (simp add: sendMessage_tasks comp_def cong: map_cong)

lemma status_advance:
  "status t \<noteq> Started \<Longrightarrow> u \<in> set (tasks (sendMessage (TaskMessage t) s)) \<Longrightarrow>
   taskId u = taskId t \<Longrightarrow> status u = status t"
  by (auto simp add: sendMessage_tasks split: if_splits)

lemma getRemainingTasks_requests [simp]:
  "getRemainingTasks (s\<lparr>requests := n\<rparr>) = getRemainingTasks s"
  "getRemainingTasks (s\<lparr>completedTasks := cs\<rparr>) = getRemainingTasks s"
  by (simp_all add: getRemainingTasks_def)

lemma cycle_analyze_fails:
  assumes "getRemainingTasks s = c # rest"
    and "analyze E (requests s) (taskValue c) = Inl e"
  shows "\<exists>s'. cycle E s = Throw e s' \<and>
           trace s' = trace s @
             [Timeout TIMEOUT_LONG, Msg (TaskMessage (c\<lparr>status := Executing\<rparr>)),
              Msg ThinkingMessage, Request (AnalyzeTask (taskValue c)), Shutdown]"
  using assms
  by (simp add: cycle_def analyzeTask_def send_defs sendMessage_plain sleep_def post_Inl Let_def)

lemma cycle_execute_fails:
  assumes "getRemainingTasks s = c # rest"
    and "analyze E (requests s) (taskValue c) = Inr a"
    and "execute E (requests s + 1) (taskValue c) a = Inl e"
  shows "\<exists>s'. cycle E s = Throw e s' \<and>
           trace s' = trace s @
             [Timeout TIMEOUT_LONG, Msg (TaskMessage (c\<lparr>status := Executing\<rparr>)),
              Msg ThinkingMessage, Request (AnalyzeTask (taskValue c)),
              Msg (AnalysisMessage a), Request (ExecuteTask (taskValue c) a), Shutdown]"
  using assms
  by (simp add: cycle_def analyzeTask_def executeTask_def send_defs sendMessage_plain sleep_def
      post_Inl post_Inr Let_def)

lemma cycle_executed:
  assumes "getRemainingTasks s = c # rest"
    and "analyze E (requests s) (taskValue c) = Inr a"
    and "execute E (requests s + 1) (taskValue c) a = Inr r"
  shows "\<exists>s'. cycle E s = Return () (addNewTasks E c r s') \<and>
           trace s' = trace s @
             [Timeout TIMEOUT_LONG, Msg (TaskMessage (c\<lparr>status := Executing\<rparr>)),
              Msg ThinkingMessage, Request (AnalyzeTask (taskValue c)),
              Msg (AnalysisMessage a), Request (ExecuteTask (taskValue c) a),
              Msg (TaskMessage (c\<lparr>info := Some r, status := Completed\<rparr>))] \<and>
           requests s' = requests s + 2 \<and>
           completedTasks s' = completedTasks s @ [taskValue c] \<and>
           getRemainingTasks s' = filter (\<lambda>u. taskId u \<noteq> taskId c) (getRemainingTasks s) \<and>
           nextId s' = nextId s \<and>
           map taskId (tasks s') = map taskId (tasks s)"
proof -
  let ?v = "taskValue c"
  let ?s2 = "sendThinkingMessage
               (sendMessage (TaskMessage (c\<lparr>status := Executing\<rparr>)) (sleep TIMEOUT_LONG s))"
  let ?s4 = "sendAnalysisMessage a ((emit (Request (AnalyzeTask ?v)) ?s2)\<lparr>requests := requests s + 1\<rparr>)"
  let ?s6 = "sendMessage (TaskMessage (c\<lparr>info := Some r, status := Completed\<rparr>))
               ((emit (Request (ExecuteTask ?v a)) ?s4)\<lparr>requests := requests s + 2\<rparr>)"
  let ?s' = "?s6\<lparr>completedTasks := completedTasks s @ [?v]\<rparr>"
  show ?thesis
    using assms
    by (intro exI [of _ ?s'] conjI)
      (simp_all add: cycle_def analyzeTask_def executeTask_def send_defs sendMessage_plain
        sleep_def post_Inl post_Inr getRemainingTasks_advance ids_advance Let_def)
qed

lemma cycle_starts:
  assumes "getRemainingTasks s = c # rest"
  shows "take (length (trace s) + 2) (trace (state_of (cycle E s))) =
           trace s @ [Timeout TIMEOUT_LONG, Msg (TaskMessage (c\<lparr>status := Executing\<rparr>))]"
proof (cases "analyze E (requests s) (taskValue c)")
  case (Inl e)
  from cycle_analyze_fails [OF assms this] show ?thesis
    by auto
next
  case (Inr a)
  show ?thesis
  proof (cases "execute E (requests s + 1) (taskValue c) a")
    case (Inl e)
    from cycle_execute_fails [OF assms Inr this] show ?thesis
      by auto
  next
    case r: (Inr r)
    from cycle_executed [OF assms Inr r] show ?thesis
      by (auto simp add: trace_addNewTasks)
  qed
qed

subsection \<open>The scenario's states are reached\<close>

lemmas model_defs = constructor_def setAgent_def startGoal_def updateIsRunning_def setIsRunning_def
  getInitialTasks_def analyzeTask_def executeTask_def getAdditionalTasks_def post_def
  onApiError_def shutdown_def setAgent_def handlePause_def sleep_def v1_def send_defs sendMessage_def
  handleAddMessage_def addMessage_def updateTaskStatus_def emit_def getRemainingTasks_def
  conditionalPause_def maxLoops_def updatePlayBackControl_def
  getMessageFromError_def messages_def TIMEOUT_LONG_def TIMOUT_SHORT_def Let_def

lemmas demo_defs = automatic_def stepPaused_def idle_def paris_def offline_def frugal_def
  flaky_def flights_def hotel_def itinerary_def planned_def suspended_def

lemma loop_completed:
  "isRunning (conditionalPause s) \<Longrightarrow> getRemainingTasks s = [] \<Longrightarrow>
   loop E s = Return () (shutdown (sendCompletedMessage (conditionalPause s)))"
  by (subst loop.simps) (simp add: Let_def)

lemma planned_reached:
  "startGoal paris (updateIsRunning True automatic) = planned"
  "startGoal frugal (updateIsRunning True automatic) = planned"
  "startGoal flaky (updateIsRunning True automatic) = planned"
  by (simp_all add: model_defs demo_defs)

lemma suspended_reached: "run paris stepPaused = Return () suspended"
proof -
  have "startGoal paris (updateIsRunning True stepPaused) =
          planned\<lparr>mode := PAUSE_MODE, playbackControl := AGENT_PAUSE\<rparr>"
    by (simp add: model_defs demo_defs)
  moreover have "\<not> isRunning stepPaused"
    by (simp add: stepPaused_def constructor_def setAgent_def)
  ultimately show ?thesis
    by (simp add: run_def loop_suspended suspended_def handlePause_def emit_def planned_def)
qed

subsection \<open>The loop sends no decomposition request\<close>

lemma Request_notin_startedEvents [simp]: "Request rq \<notin> set (startedEvents i vs)"
  by (induction vs arbitrary: i) simp_all

lemma cycle_no_decompose:
  "\<exists>ext. trace (state_of (cycle E s)) = trace s @ ext \<and>
         (\<forall>g. Request (GetInitialTasks g) \<notin> set ext)"
proof (cases "getRemainingTasks s")
  case Nil
  then show ?thesis
    by (simp add: cycle_def sleep_def send_defs Let_def)
next
  case (Cons c rest)
  show ?thesis
  proof (cases "analyze E (requests s) (taskValue c)")
    case (Inl e)
    from cycle_analyze_fails [OF Cons this] show ?thesis
      by auto
  next
    case (Inr a)
    show ?thesis
    proof (cases "execute E (requests s + 1) (taskValue c) a")
      case (Inl e)
      from cycle_execute_fails [OF Cons Inr this] show ?thesis
        by auto
    next
      case r: (Inr r)
      from cycle_executed [OF Cons Inr r] show ?thesis
        by (auto simp add: trace_addNewTasks split: sum.split)
    qed
  qed
qed

lemma loop_no_decompose:
  "\<exists>ext. trace (state_of (loop E s)) = trace s @ ext \<and>
         (\<forall>g. Request (GetInitialTasks g) \<notin> set ext)"
proof (induction E s rule: loop.induct)
  case (1 E s)
  let ?s1 = "conditionalPause s"
  let ?s2 = "?s1\<lparr>numLoops := numLoops ?s1 + 1\<rparr>"
  show ?case
  proof (cases "isRunning ?s1 \<and> getRemainingTasks s \<noteq> [] \<and> \<not> maxLoops E s < numLoops s + 1")
    case False
    then show ?thesis
      by (subst loop.simps) (auto simp add: Let_def shutdown_def setAgent_def send_defs)
  next
    case True
    then have eq: "loop E s = (case cycle E ?s2 of Throw e s' \<Rightarrow> Throw e s' | Return _ s' \<Rightarrow> loop E s')"
      by (subst loop.simps) (simp add: Let_def)
    obtain ext where ext: "trace (state_of (cycle E ?s2)) = trace s @ ext"
      "\<forall>g. Request (GetInitialTasks g) \<notin> set ext"
      using cycle_no_decompose [of E ?s2] by auto
    show ?thesis
    proof (cases "cycle E ?s2")
      case (Throw e s3)
      with eq ext show ?thesis by simp
    next
      case (Return u s3)
      have "\<exists>ext. trace (state_of (loop E s3)) = trace s3 @ ext \<and>
                  (\<forall>g. Request (GetInitialTasks g) \<notin> set ext)"
        using True Return by (intro "1.IH" [of ?s1 ?s2 u s3]) simp_all
      then obtain ext' where "trace (state_of (loop E s3)) = trace s3 @ ext'"
        "\<forall>g. Request (GetInitialTasks g) \<notin> set ext'"
        by auto
      moreover have "trace s3 = trace s @ ext"
        using ext Return by simp
      ultimately show ?thesis
        using eq Return ext(2) by auto
    qed
  qed
qed

subsection \<open>The start phase\<close>

lemma msgs_simps [simp]:
  "msgs [] = []"
  "msgs (Msg m # es) = m # msgs es"
  "msgs (Request rq # es) = msgs es"
  "msgs (Shutdown # es) = msgs es"
  "msgs (HandlePause pc # es) = msgs es"
  "msgs (Timeout n # es) = msgs es"
  "msgs (xs @ ys) = msgs xs @ msgs ys"
  by (simp_all add: msgs_def)

lemma messages_msgs: "messages s = msgs (trace s)"
  by (simp add: messages_def msgs_def)

lemma getMessageFromError_cases:
  "getMessageFromError E (OtherError x) = translate E ''ERROR_RETRIEVE_INITIAL_TASKS'' ''errors''"
  "getMessageFromError E (AxiosError (Some 404)) =
     translate E ''ERROR_OPENAI_API_KEY_NO_GPT4'' ''errors''"
  "st \<noteq> Some 404 \<Longrightarrow>
   getMessageFromError E (AxiosError st) = translate E ''ERROR_ACCESSING_OPENAI_API_KEY'' ''errors''"
  by (simp_all add: getMessageFromError_def)

lemma startGoal_fails:
  assumes "decompose E (requests s) (goal s) = Inl e"
  shows "trace (startGoal E s) =
           trace s @ [Msg (GoalMessage (goal s)), Msg ThinkingMessage,
                      Request (GetInitialTasks (goal s)), Shutdown,
                      Msg (ErrorMessage (getMessageFromError E e)), Shutdown]"
    and "numLoops (startGoal E s) = numLoops s"
    and "tasks (startGoal E s) = tasks s"
    and "isRunning (startGoal E s) = isRunning s"
    and "mode (startGoal E s) = mode s"
    and "playbackControl (startGoal E s) = playbackControl s"
  using assms
  by (simp_all add: startGoal_def getInitialTasks_def send_defs sendMessage_plain post_Inl
      shutdown_def setAgent_def Let_def)

lemma run_after_failed_start:
  assumes "decompose E (requests s) (goal s) = Inl e"
    and "\<not> isRunning s" and "getRemainingTasks s = []"
  shows "\<exists>s' ext. run E s = Return () s' \<and> numLoops s' = numLoops s \<and> tasks s' = tasks s \<and>
           trace s' =
             trace s @ [Msg (GoalMessage (goal s)), Msg ThinkingMessage,
                        Request (GetInitialTasks (goal s)), Shutdown,
                        Msg (ErrorMessage (getMessageFromError E e)), Shutdown] @ ext \<and>
           filter isError (msgs ext) = []"
proof -
  let ?u = "updateIsRunning True s"
  let ?t = "startGoal E ?u"
  have u: "decompose E (requests ?u) (goal ?u) = Inl e" "goal ?u = goal s"
    "trace ?u = trace s" "numLoops ?u = numLoops s" "tasks ?u = tasks s" "isRunning ?u"
    "mode ?u = mode s" "playbackControl ?u = playbackControl s"
    using assms(1) by (simp_all add: updateIsRunning_def setIsRunning_def)
  note t = startGoal_fails [OF u(1)]
  have run: "run E s =
               (case loop E ?t of
                  Throw e s2 \<Rightarrow> Throw e s2
                | Return _ s2 \<Rightarrow>
                    Return () (if mode s2 = PAUSE_MODE \<and> \<not> isRunning s2
                               then handlePause (playbackControl s2) s2 else s2))"
    using assms(2) by (simp add: run_def)
  show ?thesis
  proof (cases "mode s = PAUSE_MODE \<and> playbackControl s = AGENT_PAUSE")
    case True
    then have "loop E ?t = Return () (?t\<lparr>isRunning := False\<rparr>)"
      using t(5,6) u(7,8) by (intro loop_suspended) simp_all
    then have "run E s = Return () (handlePause AGENT_PAUSE (?t\<lparr>isRunning := False\<rparr>))"
      using True t(5,6) u(7,8) by (simp add: run)
    moreover have "trace (handlePause AGENT_PAUSE (?t\<lparr>isRunning := False\<rparr>)) =
             trace s @ [Msg (GoalMessage (goal s)), Msg ThinkingMessage,
                        Request (GetInitialTasks (goal s)), Shutdown,
                        Msg (ErrorMessage (getMessageFromError E e)), Shutdown] @
             [HandlePause AGENT_PAUSE]"
      using t(1) u(2,3) by (simp add: handlePause_def)
    moreover have "numLoops (handlePause AGENT_PAUSE (?t\<lparr>isRunning := False\<rparr>)) = numLoops s"
      "tasks (handlePause AGENT_PAUSE (?t\<lparr>isRunning := False\<rparr>)) = tasks s"
      using t(2,3) u(4,5) by (simp_all add: handlePause_def)
    moreover have "filter isError (msgs [HandlePause AGENT_PAUSE]) = []"
      by simp
    ultimately show ?thesis
      by blast
  next
    case False
    let ?c = "conditionalPause ?t"
    have c: "isRunning ?c"
      using False t(4,5,6) u(6,7,8)
      by (cases "playbackControl s") (auto simp add: conditionalPause_def Let_def)
    have "getRemainingTasks ?t = []"
      using assms(3) t(3) u(5) by (simp add: getRemainingTasks_def)
    then have "loop E ?t = Return () (shutdown (sendCompletedMessage ?c))"
      using c by (rule loop_completed [rotated])
    then have "run E s = Return () (shutdown (sendCompletedMessage ?c))"
      using c by (simp add: run shutdown_def setAgent_def send_defs)
    moreover have "trace (shutdown (sendCompletedMessage ?c)) =
             trace s @ [Msg (GoalMessage (goal s)), Msg ThinkingMessage,
                        Request (GetInitialTasks (goal s)), Shutdown,
                        Msg (ErrorMessage (getMessageFromError E e)), Shutdown] @
             [Msg CompletedMessage, Shutdown]"
      using t(1) u(2,3) by (simp add: shutdown_def setAgent_def send_defs)
    moreover have "numLoops (shutdown (sendCompletedMessage ?c)) = numLoops s"
      "tasks (shutdown (sendCompletedMessage ?c)) = tasks s"
      using t(2,3) u(4,5) by (simp_all add: shutdown_def setAgent_def send_defs sendMessage_tasks)
    moreover have "filter isError (msgs [Msg CompletedMessage, Shutdown]) = []"
      by simp
    ultimately show ?thesis
      by blast
  qed
qed

subsection \<open>A failing follow-up request\<close>

lemma addNewTasks_fails:
  assumes "followUps E (requests s) (taskValue c) (map taskValue (getRemainingTasks s))
             (completedTasks s) r = Inl e"
  shows "map taskId (tasks (addNewTasks E c r s)) = map taskId (tasks s)"
    and "\<forall>u\<in>set (tasks (addNewTasks E c r s)). taskId u = taskId c \<longrightarrow> status u = Final"
    and "getRemainingTasks (addNewTasks E c r s) =
           filter (\<lambda>u. taskId u \<noteq> taskId c) (getRemainingTasks s)"
proof -
  let ?s3 = "sendErrorMessage (translate E ''ERROR_ADDING_ADDITIONAL_TASKS'' ''errors'')
               (shutdown ((emit (Request (GetAdditionalTasks (taskValue c)
                   (map taskValue (getRemainingTasks s)) (completedTasks s) r))
                 (sendThinkingMessage (sleep TIMEOUT_LONG s)))\<lparr>requests := requests s + 1\<rparr>))"
  have eq: "addNewTasks E c r s = sendMessage (TaskMessage (c\<lparr>status := Final\<rparr>)) ?s3"
    using assms
    by (simp add: addNewTasks_def getAdditionalTasks_def post_Inl send_defs sendMessage_plain
        sleep_def shutdown_def setAgent_def Let_def)
  have t3: "tasks ?s3 = tasks s"
    by (simp add: send_defs sendMessage_plain sleep_def shutdown_def setAgent_def)
  then have r3: "getRemainingTasks ?s3 = getRemainingTasks s"
    by (simp add: getRemainingTasks_def)
  show "map taskId (tasks (addNewTasks E c r s)) = map taskId (tasks s)"
    using t3 by (simp add: eq ids_advance)
  show "\<forall>u\<in>set (tasks (addNewTasks E c r s)). taskId u = taskId c \<longrightarrow> status u = Final"
    using status_advance [of "c\<lparr>status := Final\<rparr>" _ ?s3] by (auto simp add: eq)
  show "getRemainingTasks (addNewTasks E c r s) =
           filter (\<lambda>u. taskId u \<noteq> taskId c) (getRemainingTasks s)"
    using r3 by (simp add: eq getRemainingTasks_advance)
qed

lemma loop_extends: "\<exists>ext. trace (state_of (loop E s)) = trace s @ ext"
  using loop_no_decompose [of E s] by blast

lemma loop_pass_starts:
  assumes "isRunning (conditionalPause s)" and "getRemainingTasks s = c # rest"
    and "\<not> maxLoops E s < numLoops s + 1"
  shows "take (length (trace s) + 2) (trace (state_of (loop E s))) =
           trace s @ [Timeout TIMEOUT_LONG, Msg (TaskMessage (c\<lparr>status := Executing\<rparr>))]"
proof -
  let ?s2 = "(conditionalPause s)\<lparr>numLoops := numLoops s + 1\<rparr>"
  have eq: "loop E s = (case cycle E ?s2 of Throw e s' \<Rightarrow> Throw e s' | Return _ s' \<Rightarrow> loop E s')"
    using assms by (simp add: loop_iteration)
  have "getRemainingTasks ?s2 = c # rest"
    using assms(2) by simp
  from cycle_starts [OF this, of E]
  have first: "take (length (trace s) + 2) (trace (state_of (cycle E ?s2))) =
                 trace s @ [Timeout TIMEOUT_LONG, Msg (TaskMessage (c\<lparr>status := Executing\<rparr>))]"
    by simp
  have len: "length (trace s) + 2 \<le> length (trace (state_of (cycle E ?s2)))"
    using arg_cong [OF first, of length] by simp
  show ?thesis
  proof (cases "cycle E ?s2")
    case (Throw e s3)
    with eq first show ?thesis by simp
  next
    case (Return u s3)
    obtain ext where "trace (state_of (loop E s3)) = trace s3 @ ext"
      using loop_extends by blast
    then show ?thesis
      using eq Return first len by simp
  qed
qed

subsection \<open>Running again\<close>

lemma run_running:
  "isRunning s \<Longrightarrow>
   run E s =
     (case loop E s of
        Throw e s' \<Rightarrow> Throw e s'
      | Return _ s' \<Rightarrow>
          Return () (if mode s' = PAUSE_MODE \<and> \<not> isRunning s'
                     then handlePause (playbackControl s') s' else s'))"
  by (simp add: run_def)

lemma run_no_decompose:
  assumes "isRunning s"
  shows "Request (GetInitialTasks g) \<notin> set (drop (length (trace s)) (trace (state_of (run E s))))"
proof -
  obtain ext where ext: "trace (state_of (loop E s)) = trace s @ ext"
    "\<forall>g. Request (GetInitialTasks g) \<notin> set ext"
    using loop_no_decompose [of E s] by auto
  show ?thesis
  proof (cases "loop E s")
    case (Throw e s')
    with ext show ?thesis
      using assms by (simp add: run_running)
  next
    case (Return u s')
    with ext show ?thesis
      using assms by (simp add: run_running handlePause_def)
  qed
qed

lemma length_startedEvents [simp]: "length (startedEvents i vs) = 2 * length vs"
  by (induction vs arbitrary: i) simp_all

lemma startGoal_trace:
  "trace (startGoal E s) =
     trace s @ [Msg (GoalMessage (goal s)), Msg ThinkingMessage,
                Request (GetInitialTasks (goal s))] @
     (case decompose E (requests s) (goal s) of
        Inr vs \<Rightarrow> startedEvents (nextId s) vs
      | Inl e \<Rightarrow> [Shutdown, Msg (ErrorMessage (getMessageFromError E e)), Shutdown])"
  by (simp add: startGoal_def getInitialTasks_def send_defs sendMessage_plain post_Inl post_Inr
      trace_sendStarted shutdown_def setAgent_def Let_def split: sum.split)

lemma run_idle:
  "\<not> isRunning s \<Longrightarrow>
   run E s =
     (case loop E (startGoal E (updateIsRunning True s)) of
        Throw e s' \<Rightarrow> Throw e s'
      | Return _ s' \<Rightarrow>
          Return () (if mode s' = PAUSE_MODE \<and> \<not> isRunning s'
                     then handlePause (playbackControl s') s' else s'))"
  by (simp add: run_def)

lemma run_starts:
  assumes "\<not> isRunning s"
  shows "\<exists>ext. trace (state_of (run E s)) =
           trace s @ [Msg (GoalMessage (goal s)), Msg ThinkingMessage,
                      Request (GetInitialTasks (goal s))] @
           (case decompose E (requests s) (goal s) of
              Inr vs \<Rightarrow> startedEvents (nextId s) vs
            | Inl e \<Rightarrow> [Shutdown, Msg (ErrorMessage (getMessageFromError E e)), Shutdown]) @ ext"
proof -
  let ?u = "updateIsRunning True s"
  let ?t = "startGoal E ?u"
  have t: "trace ?t =
           trace s @ [Msg (GoalMessage (goal s)), Msg ThinkingMessage,
                      Request (GetInitialTasks (goal s))] @
           (case decompose E (requests s) (goal s) of
              Inr vs \<Rightarrow> startedEvents (nextId s) vs
            | Inl e \<Rightarrow> [Shutdown, Msg (ErrorMessage (getMessageFromError E e)), Shutdown])"
    using startGoal_trace [of E ?u]
    by (cases "decompose E (requests s) (goal s)")
      (simp_all add: updateIsRunning_def setIsRunning_def)
  obtain ext where ext: "trace (state_of (loop E ?t)) = trace ?t @ ext"
    using loop_extends by blast
  show ?thesis
  proof (cases "loop E ?t")
    case (Throw e s')
    then show ?thesis
      using ext t assms by (simp add: run_idle)
  next
    case (Return u s')
    then show ?thesis
      using ext t assms by (simp add: run_idle handlePause_def)
  qed
qed

subsection \<open>Store and trace agree\<close>

lemma taskStatuses_append [simp]:
  "taskStatuses i (xs @ ys) = taskStatuses i xs @ taskStatuses i ys"
  by (induction i xs rule: taskStatuses.induct) simp_all

lemma taskIds_append [simp]: "taskIds (xs @ ys) = taskIds xs @ taskIds ys"
  by (induction xs rule: taskIds.induct) simp_all

lemma taskStatuses_unknown: "i \<notin> set (taskIds es) \<Longrightarrow> taskStatuses i es = []"
  by (induction i es rule: taskStatuses.induct) auto

lemma taskStatuses_startedEvents:
  "i < j \<Longrightarrow> taskStatuses i (startedEvents j vs) = []"
  by (induction vs arbitrary: j) simp_all

lemma consistent_plain:
  assumes "tasks s' = tasks s" and "nextId s' = nextId s" and "trace s' = trace s @ es"
    and "taskIds es = []"
  shows "consistent s' = consistent s"
proof -
  have "taskStatuses i es = []" for i
    using assms(4) by (simp add: taskStatuses_unknown)
  then show ?thesis
    using assms by (simp add: consistent_def)
qed

lemma ready_plain:
  assumes "tasks s' = tasks s" and "nextId s' = nextId s" and "trace s' = trace s @ es"
    and "taskIds es = []"
  shows "ready i st s' = ready i st s"
  using consistent_plain [OF assms] assms(1) by (simp add: ready_def)

lemma consistent_emit_plain: "taskIds [e] = [] \<Longrightarrow> consistent (emit e s) = consistent s"
  by (rule consistent_plain [where es = "[e]"]) simp_all

lemma ready_emit_plain: "taskIds [e] = [] \<Longrightarrow> ready i st (emit e s) = ready i st s"
  by (rule ready_plain [where es = "[e]"]) simp_all

lemma ready_emit [simp]:
  "ready i st (emit (Timeout n) s) = ready i st s"
  "ready i st (emit (Request rq) s) = ready i st s"
  "ready i st (emit Shutdown s) = ready i st s"
  "ready i st (emit (HandlePause p) s) = ready i st s"
  "ready i st (emit (Msg ThinkingMessage) s) = ready i st s"
  "ready i st (emit (Msg (AnalysisMessage a)) s) = ready i st s"
  "ready i st (emit (Msg (ErrorMessage m)) s) = ready i st s"
  "ready i st (emit (Msg (GoalMessage g)) s) = ready i st s"
  "ready i st (emit (Msg CompletedMessage) s) = ready i st s"
  "ready i st (emit (Msg LoopMessage) s) = ready i st s"
  "ready i st (emit (Msg ManualShutdownMessage) s) = ready i st s"
  "ready i st (emit (Msg (BareMessage b)) s) = ready i st s"
  by (simp_all add: ready_emit_plain)

lemma consistent_emit [simp]:
  "consistent (emit (Timeout n) s) = consistent s"
  "consistent (emit (Request rq) s) = consistent s"
  "consistent (emit Shutdown s) = consistent s"
  "consistent (emit (HandlePause p) s) = consistent s"
  "consistent (emit (Msg ThinkingMessage) s) = consistent s"
  "consistent (emit (Msg (AnalysisMessage a)) s) = consistent s"
  "consistent (emit (Msg (ErrorMessage m)) s) = consistent s"
  "consistent (emit (Msg (GoalMessage g)) s) = consistent s"
  "consistent (emit (Msg CompletedMessage) s) = consistent s"
  "consistent (emit (Msg LoopMessage) s) = consistent s"
  "consistent (emit (Msg ManualShutdownMessage) s) = consistent s"
  "consistent (emit (Msg (BareMessage b)) s) = consistent s"
  by (simp_all add: consistent_emit_plain)

lemma consistent_upd [simp]:
  "consistent (s\<lparr>requests := n\<rparr>) = consistent s"
  "consistent (s\<lparr>completedTasks := cs\<rparr>) = consistent s"
  "consistent (s\<lparr>isRunning := b\<rparr>) = consistent s"
  "consistent (s\<lparr>numLoops := k\<rparr>) = consistent s"
  "consistent (s\<lparr>playbackControl := p\<rparr>) = consistent s"
  "consistent (s\<lparr>serviceIsRunning := b\<rparr>) = consistent s"
  "consistent (s\<lparr>pageAgent := b\<rparr>) = consistent s"
  by (simp_all add: consistent_def)

lemma ready_upd [simp]:
  "ready i st (s\<lparr>requests := n\<rparr>) = ready i st s"
  "ready i st (s\<lparr>completedTasks := cs\<rparr>) = ready i st s"
  "ready i st (s\<lparr>isRunning := b\<rparr>) = ready i st s"
  "ready i st (s\<lparr>numLoops := k\<rparr>) = ready i st s"
  "ready i st (s\<lparr>playbackControl := p\<rparr>) = ready i st s"
  "ready i st (s\<lparr>serviceIsRunning := b\<rparr>) = ready i st s"
  "ready i st (s\<lparr>pageAgent := b\<rparr>) = ready i st s"
  by (simp_all add: ready_def)

lemma ready_advance:
  assumes "ready i p s" and "lifecycle st = lifecycle p @ [st]"
    and "taskId t = i" and "status t = st"
  shows "ready i st (sendMessage (TaskMessage t) s)"
proof -
  let ?s' = "sendMessage (TaskMessage t) s"
  let ?upd = "\<lambda>u. if taskId u = taskId t
                   then u\<lparr>status := status t,
                          info := (case info t of None \<Rightarrow> info u | Some r \<Rightarrow> Some r)\<rparr>
                   else u"
  have st: "status t \<noteq> Started"
    using assms(2,4) by (cases st; cases p) simp_all
  have tasks: "tasks ?s' = map ?upd (tasks s)"
    using st by (simp add: sendMessage_tasks)
  have ids: "map taskId (tasks ?s') = map taskId (tasks s)"
    using st by (simp add: ids_advance)
  have old: "distinct (map taskId (tasks s))"
    "\<forall>u\<in>set (tasks s). taskId u < nextId s"
    "\<forall>u\<in>set (tasks s). taskStatuses (taskId u) (trace s) = lifecycle (status u)"
    "set (taskIds (trace s)) \<subseteq> set (map taskId (tasks s))"
    "i \<in> set (map taskId (tasks s))"
    "\<forall>u\<in>set (tasks s). taskId u = i \<longrightarrow> status u = p"
    using assms(1) by (simp_all add: ready_def consistent_def list_all_iff)
  have b: "\<forall>u\<in>set (tasks ?s'). taskId u < nextId ?s'"
  proof
    fix u' assume "u' \<in> set (tasks ?s')"
    then have "taskId u' \<in> set (map taskId (tasks ?s'))"
      by simp
    then have "taskId u' \<in> set (map taskId (tasks s))"
      by (simp only: ids)
    then show "taskId u' < nextId ?s'"
      using old(2) by auto
  qed
  have l: "\<forall>u\<in>set (tasks ?s'). taskStatuses (taskId u) (trace ?s') = lifecycle (status u)"
  proof
    fix u' assume "u' \<in> set (tasks ?s')"
    then obtain u where u: "u \<in> set (tasks s)" "u' = ?upd u"
      unfolding tasks by auto
    show "taskStatuses (taskId u') (trace ?s') = lifecycle (status u')"
    proof (cases "taskId u = taskId t")
      case True
      then have "status u = p"
        using old(6) u(1) assms(3) by simp
      moreover have "taskStatuses (taskId u) (trace s) = lifecycle (status u)"
        using old(3) u(1) by simp
      ultimately show ?thesis
        using True u(2) assms(2,4) by simp
    next
      case False
      moreover have "taskStatuses (taskId u) (trace s) = lifecycle (status u)"
        using old(3) u(1) by simp
      ultimately show ?thesis
        using u(2) by simp
    qed
  qed
  have k: "set (taskIds (trace ?s')) \<subseteq> set (map taskId (tasks ?s'))"
    using old(4,5) assms(3) by (simp add: ids)
  have a: "\<forall>u\<in>set (tasks ?s'). taskId u = i \<longrightarrow> status u = st"
    using assms(3,4) unfolding tasks by auto
  have d: "distinct (map taskId (tasks ?s'))" "i \<in> set (map taskId (tasks ?s'))"
    using old(1,5) by (simp_all only: ids)
  show ?thesis
    using d b l k a unfolding ready_def consistent_def list_all_iff by blast
qed

lemma map_unless:
  "\<forall>u\<in>set xs. taskId u \<noteq> i \<Longrightarrow> map (\<lambda>u. if taskId u = i then g u else u) xs = xs"
  by (induction xs) simp_all

lemma tasks_started:
  assumes "\<forall>u\<in>set (tasks s). taskId u < nextId s"
  shows "tasks (sendMessage (TaskMessage \<lparr>taskId = nextId s, taskValue = v, status = Started, info = None\<rparr>)
                  (s\<lparr>nextId := Suc (nextId s)\<rparr>)) =
           tasks s @ [\<lparr>taskId = nextId s, taskValue = v, status = Started, info = None\<rparr>]"
proof -
  have "\<forall>u\<in>set (tasks s). taskId u \<noteq> nextId s"
    using assms by auto
  then show ?thesis
    by (simp add: sendMessage_tasks map_unless)
qed

lemma consistent_started:
  assumes "consistent s"
  shows "consistent
           (sendMessage (TaskMessage \<lparr>taskId = nextId s, taskValue = v, status = Started, info = None\<rparr>)
              (s\<lparr>nextId := Suc (nextId s)\<rparr>))"
proof -
  let ?t = "\<lparr>taskId = nextId s, taskValue = v, status = Started, info = None\<rparr>"
  let ?s' = "sendMessage (TaskMessage ?t) (s\<lparr>nextId := Suc (nextId s)\<rparr>)"
  have old: "distinct (map taskId (tasks s))"
    "\<forall>u\<in>set (tasks s). taskId u < nextId s"
    "\<forall>u\<in>set (tasks s). taskStatuses (taskId u) (trace s) = lifecycle (status u)"
    "set (taskIds (trace s)) \<subseteq> set (map taskId (tasks s))"
    using assms by (simp_all add: consistent_def list_all_iff)
  have fresh: "nextId s \<notin> set (map taskId (tasks s))"
    using old(2) by auto
  have tasks: "tasks ?s' = tasks s @ [?t]"
    using old(2) by (rule tasks_started)
  have unseen: "taskStatuses (nextId s) (trace s) = []"
    using fresh old(4) by (auto intro: taskStatuses_unknown)
  have d: "distinct (map taskId (tasks ?s'))"
    using old(1) fresh unfolding tasks by simp
  have b: "\<forall>u\<in>set (tasks ?s'). taskId u < nextId ?s'"
    using old(2) unfolding tasks by auto
  have l: "\<forall>u\<in>set (tasks ?s'). taskStatuses (taskId u) (trace ?s') = lifecycle (status u)"
  proof
    fix u assume "u \<in> set (tasks ?s')"
    then consider "u \<in> set (tasks s)" | "u = ?t"
      unfolding tasks by auto
    then show "taskStatuses (taskId u) (trace ?s') = lifecycle (status u)"
    proof cases
      case 1
      then have "taskId u \<noteq> nextId s"
        using old(2) by auto
      then show ?thesis
        using old(3) 1 by simp
    next
      case 2
      then show ?thesis
        using unseen by simp
    qed
  qed
  have k: "set (taskIds (trace ?s')) \<subseteq> set (map taskId (tasks ?s'))"
    using old(4) unfolding tasks by auto
  show ?thesis
    using d b l k unfolding consistent_def list_all_iff by blast
qed

lemma ready_started:
  assumes "ready i st s"
  shows "ready i st
           (sendMessage (TaskMessage \<lparr>taskId = nextId s, taskValue = v, status = Started, info = None\<rparr>)
              (s\<lparr>nextId := Suc (nextId s)\<rparr>))"
proof -
  let ?t = "\<lparr>taskId = nextId s, taskValue = v, status = Started, info = None\<rparr>"
  let ?s' = "sendMessage (TaskMessage ?t) (s\<lparr>nextId := Suc (nextId s)\<rparr>)"
  have c: "consistent s" and i: "i \<in> set (map taskId (tasks s))"
    and at: "\<forall>u\<in>set (tasks s). taskId u = i \<longrightarrow> status u = st"
    using assms by (simp_all add: ready_def list_all_iff)
  have bound: "\<forall>u\<in>set (tasks s). taskId u < nextId s"
    using c by (simp add: consistent_def list_all_iff)
  have tasks: "tasks ?s' = tasks s @ [?t]"
    using bound by (rule tasks_started)
  have "i \<noteq> nextId s"
    using i bound by auto
  then have "\<forall>u\<in>set (tasks ?s'). taskId u = i \<longrightarrow> status u = st"
    using at unfolding tasks by auto
  moreover have "i \<in> set (map taskId (tasks ?s'))"
    using i unfolding tasks by simp
  ultimately show ?thesis
    using consistent_started [OF c, of v] unfolding ready_def list_all_iff by blast
qed

lemma consistent_sendStarted: "consistent s \<Longrightarrow> consistent (sendStarted vs s)"
proof (induction vs arbitrary: s)
  case Nil
  then show ?case by simp
next
  case (Cons v vs)
  have "consistent (emit (Timeout TIMOUT_SHORT) s)"
    using Cons.prems by simp
  from consistent_started [OF this, of v] show ?case
    by (simp add: sleep_def v1_def Cons.IH)
qed

lemma ready_sendStarted: "ready i st s \<Longrightarrow> ready i st (sendStarted vs s)"
proof (induction vs arbitrary: s)
  case Nil
  then show ?case by simp
next
  case (Cons v vs)
  have "ready i st (emit (Timeout TIMOUT_SHORT) s)"
    using Cons.prems by simp
  from ready_started [OF this, of v] show ?case
    by (simp add: sleep_def v1_def Cons.IH)
qed

lemma ready_consistent: "ready i st s \<Longrightarrow> consistent s"
  by (simp add: ready_def)

lemma consistent_conditionalPause [simp]: "consistent (conditionalPause s) = consistent s"
  by (simp add: conditionalPause_def Let_def)

lemma ready_current:
  assumes "consistent s" and "getRemainingTasks s = c # rest"
  shows "ready (taskId c) Started s"
proof -
  have "c \<in> set (filter (\<lambda>t. status t = Started) (tasks s))"
    using assms(2) by (simp add: getRemainingTasks_def)
  then have c: "c \<in> set (tasks s)" "status c = Started"
    by simp_all
  have "inj_on taskId (set (tasks s))"
    using assms(1) by (simp add: consistent_def distinct_map)
  then have "\<forall>u\<in>set (tasks s). taskId u = taskId c \<longrightarrow> status u = Started"
    using c by (auto dest: inj_onD)
  then show ?thesis
    using assms(1) c(1) by (simp add: ready_def list_all_iff)
qed

lemma addNewTasks_consistent:
  assumes "ready (taskId c) Completed s"
  shows "consistent (addNewTasks E c r s)"
proof -
  let ?rq = "GetAdditionalTasks (taskValue c) (map taskValue (getRemainingTasks s))
               (completedTasks s) r"
  let ?s3 = "(emit (Request ?rq) (emit (Msg ThinkingMessage) (emit (Timeout TIMEOUT_LONG) s)))
               \<lparr>requests := requests s + 1\<rparr>"
  have r3: "ready (taskId c) Completed ?s3"
    using assms by simp
  have fin: "ready (taskId c) Final (sendMessage (TaskMessage (c\<lparr>status := Final\<rparr>)) t)"
    if "ready (taskId c) Completed t" for t
    using that by (rule ready_advance) simp_all
  show ?thesis
  proof (cases "followUps E (requests s) (taskValue c) (map taskValue (getRemainingTasks s))
                  (completedTasks s) r")
    case (Inl e)
    let ?s4 = "emit (Msg (ErrorMessage (translate E ''ERROR_ADDING_ADDITIONAL_TASKS'' ''errors'')))
                 ((emit Shutdown ?s3)\<lparr>pageAgent := False\<rparr>)"
    have "addNewTasks E c r s = sendMessage (TaskMessage (c\<lparr>status := Final\<rparr>)) ?s4"
      using Inl
      by (simp add: addNewTasks_def getAdditionalTasks_def post_Inl send_defs sendMessage_plain
          sleep_def Let_def)
    moreover have "ready (taskId c) Completed ?s4"
      using r3 by simp
    ultimately show ?thesis
      using fin ready_consistent by metis
  next
    case (Inr newTasks)
    let ?s4 = "sendStarted newTasks ?s3"
    have eq: "addNewTasks E c r s =
                (if newTasks = [] then sendMessage (TaskMessage (c\<lparr>status := Final\<rparr>)) ?s4
                 else ?s4)"
      using Inr
      by (simp add: addNewTasks_def getAdditionalTasks_def post_Inr send_defs sendMessage_plain
          sleep_def Let_def)
    have r4: "ready (taskId c) Completed ?s4"
      using r3 by (rule ready_sendStarted)
    show ?thesis
    proof (cases "newTasks = []")
      case True
      then show ?thesis
        using eq fin [OF r4] ready_consistent by metis
    next
      case False
      then show ?thesis
        using eq r4 ready_consistent by metis
    qed
  qed
qed

lemma cycle_consistent:
  assumes "consistent s"
  shows "consistent (state_of (cycle E s))"
proof (cases "getRemainingTasks s")
  case Nil
  then show ?thesis
    using assms by (simp add: cycle_def sleep_def send_defs sendMessage_plain Let_def)
next
  case (Cons c rest)
  let ?v = "taskValue c"
  let ?s2 = "sendMessage (TaskMessage (c\<lparr>status := Executing\<rparr>)) (emit (Timeout TIMEOUT_LONG) s)"
  let ?s3 = "(emit (Request (AnalyzeTask ?v)) (emit (Msg ThinkingMessage) ?s2))
               \<lparr>requests := requests s + 1\<rparr>"
  have "ready (taskId c) Started (emit (Timeout TIMEOUT_LONG) s)"
    using ready_current [OF assms Cons] by simp
  then have r2: "ready (taskId c) Executing ?s2"
    by (rule ready_advance) simp_all
  then have r3: "ready (taskId c) Executing ?s3"
    by simp
  show ?thesis
  proof (cases "analyze E (requests s) ?v")
    case (Inl e)
    have "cycle E s = Throw e ((emit Shutdown ?s3)\<lparr>pageAgent := False\<rparr>)"
      using Cons Inl
      by (simp add: cycle_def analyzeTask_def send_defs sendMessage_plain sleep_def post_Inl
          Let_def)
    then show ?thesis
      using r3 by (simp add: ready_consistent)
  next
    case (Inr a)
    let ?s5 = "(emit (Request (ExecuteTask ?v a)) (emit (Msg (AnalysisMessage a)) ?s3))
                 \<lparr>requests := requests s + 2\<rparr>"
    have r5: "ready (taskId c) Executing ?s5"
      using r3 by simp
    show ?thesis
    proof (cases "execute E (requests s + 1) ?v a")
      case (Inl e)
      have "cycle E s = Throw e ((emit Shutdown ?s5)\<lparr>pageAgent := False\<rparr>)"
        using Cons Inr Inl
        by (simp add: cycle_def analyzeTask_def executeTask_def send_defs sendMessage_plain
            sleep_def post_Inl post_Inr Let_def)
      then show ?thesis
        using r5 by (simp add: ready_consistent)
    next
      case r: (Inr r)
      let ?s7 = "sendMessage (TaskMessage (c\<lparr>info := Some r, status := Completed\<rparr>)) ?s5"
      let ?s8 = "?s7\<lparr>completedTasks := completedTasks s @ [?v]\<rparr>"
      have "ready (taskId c) Completed ?s7"
        using r5 by (rule ready_advance) simp_all
      then have r8: "ready (taskId c) Completed ?s8"
        by simp
      have "cycle E s = Return () (addNewTasks E c r ?s8)"
        using Cons Inr r
        by (simp add: cycle_def analyzeTask_def executeTask_def send_defs sendMessage_plain
            sleep_def post_Inl post_Inr Let_def)
      then show ?thesis
        using addNewTasks_consistent [OF r8] by simp
    qed
  qed
qed

lemma loop_consistent: "consistent s \<Longrightarrow> consistent (state_of (loop E s))"
proof (induction E s rule: loop.induct)
  case (1 E s)
  let ?s1 = "conditionalPause s"
  let ?s2 = "?s1\<lparr>numLoops := numLoops ?s1 + 1\<rparr>"
  show ?case
  proof (cases "isRunning ?s1 \<and> getRemainingTasks s \<noteq> [] \<and> \<not> maxLoops E s < numLoops s + 1")
    case False
    then show ?thesis
      using "1.prems"
      by (subst loop.simps) (auto simp add: Let_def shutdown_def setAgent_def send_defs sendMessage_plain)
  next
    case True
    then have eq: "loop E s = (case cycle E ?s2 of Throw e s' \<Rightarrow> Throw e s' | Return _ s' \<Rightarrow> loop E s')"
      by (subst loop.simps) (simp add: Let_def)
    have c2: "consistent (state_of (cycle E ?s2))"
      using "1.prems" by (intro cycle_consistent) simp
    show ?thesis
    proof (cases "cycle E ?s2")
      case (Throw e s3)
      with eq c2 show ?thesis by simp
    next
      case (Return u s3)
      have "consistent (state_of (loop E s3))"
        using True Return c2 by (intro "1.IH" [of ?s1 ?s2 u s3]) simp_all
      then show ?thesis
        using eq Return by simp
    qed
  qed
qed

lemma startGoal_consistent:
  assumes "consistent s"
  shows "consistent (startGoal E s)"
proof (cases "decompose E (requests s) (goal s)")
  case (Inl e)
  then show ?thesis
    using assms
    by (simp add: startGoal_def getInitialTasks_def post_Inl send_defs sendMessage_plain
        shutdown_def setAgent_def Let_def)
next
  case (Inr vs)
  then show ?thesis
    using assms
    by (simp add: startGoal_def getInitialTasks_def post_Inr send_defs sendMessage_plain
        consistent_sendStarted Let_def)
qed

lemma run_consistent:
  assumes "consistent s"
  shows "consistent (state_of (run E s))"
proof -
  let ?s1 = "if \<not> isRunning s then startGoal E (updateIsRunning True s) else s"
  have "consistent ?s1"
    using assms by (simp add: startGoal_consistent updateIsRunning_def setIsRunning_def)
  then have "consistent (state_of (loop E ?s1))"
    by (rule loop_consistent)
  then show ?thesis
    by (cases "loop E ?s1") (simp_all add: run_def handlePause_def)
qed

lemma consistent_order:
  assumes "consistent s"
  shows "taskStatuses i (trace s) \<in>
           {[], [Started], [Started, Executing], [Started, Executing, Completed],
            [Started, Executing, Completed, Final]}"
proof (cases "i \<in> set (map taskId (tasks s))")
  case True
  then obtain t where "t \<in> set (tasks s)" "taskId t = i"
    by auto
  then have "taskStatuses i (trace s) = lifecycle (status t)"
    using assms by (auto simp add: consistent_def list_all_iff)
  then show ?thesis
    by (cases "status t") simp_all
next
  case False
  then have "i \<notin> set (taskIds (trace s))"
    using assms by (auto simp add: consistent_def)
  then show ?thesis
    by (simp add: taskStatuses_unknown)
qed

lemma started_only:
  "TaskMessage t \<in> set (msgs (startedEvents i vs)) \<Longrightarrow> status t = Started"
  by (induction vs arbitrary: i) auto

lemma cycle_messages:
  assumes "getRemainingTasks s = c # rest"
    and "analyze E (requests s) (taskValue c) = Inr a"
    and "execute E (requests s + 1) (taskValue c) a = Inr r"
  shows "messages (state_of (cycle E s)) =
           messages s @
           [TaskMessage (c\<lparr>status := Executing\<rparr>), ThinkingMessage, AnalysisMessage a,
            TaskMessage (c\<lparr>info := Some r, status := Completed\<rparr>), ThinkingMessage] @
           (case followUps E (requests s + 2) (taskValue c)
                   (map taskValue (filter (\<lambda>u. taskId u \<noteq> taskId c) rest))
                   (completedTasks s @ [taskValue c]) r of
              Inl e \<Rightarrow>
                [ErrorMessage (translate E ''ERROR_ADDING_ADDITIONAL_TASKS'' ''errors''),
                 TaskMessage (c\<lparr>status := Final\<rparr>)]
            | Inr newTasks \<Rightarrow>
                msgs (startedEvents (nextId s) newTasks) @
                (if newTasks = [] then [TaskMessage (c\<lparr>status := Final\<rparr>)] else []))"
proof -
  from cycle_executed [OF assms]
  obtain s' where s': "cycle E s = Return () (addNewTasks E c r s')"
    "trace s' = trace s @
       [Timeout TIMEOUT_LONG, Msg (TaskMessage (c\<lparr>status := Executing\<rparr>)),
        Msg ThinkingMessage, Request (AnalyzeTask (taskValue c)),
        Msg (AnalysisMessage a), Request (ExecuteTask (taskValue c) a),
        Msg (TaskMessage (c\<lparr>info := Some r, status := Completed\<rparr>))]"
    "requests s' = requests s + 2"
    "completedTasks s' = completedTasks s @ [taskValue c]"
    "getRemainingTasks s' = filter (\<lambda>u. taskId u \<noteq> taskId c) (getRemainingTasks s)"
    "nextId s' = nextId s"
    by blast
  have rem: "getRemainingTasks s' = filter (\<lambda>u. taskId u \<noteq> taskId c) rest"
    using s'(5) assms(1) by simp
  show ?thesis
    by (cases "followUps E (requests s + 2) (taskValue c)
                 (map taskValue (filter (\<lambda>u. taskId u \<noteq> taskId c) rest))
                 (completedTasks s @ [taskValue c]) r")
      (simp_all add: s'(1) messages_msgs trace_addNewTasks s'(2,3,4,6) rem)
qed

section \<open>The claims\<close>

text \<open>
  C1. In step-paused mode the loop consults the playback flag at the head of every pass.
  With the flag at Pause the pass sets \<^verbatim>\<open>isRunning\<close> to false and returns: the counter
  \<^verbatim>\<open>numLoops\<close>, the task store and the trace are what they were. With the flag at Play the
  flag is reset to Pause at once and the pass goes on; if it runs a task cycle, the next pass
  finds Pause and suspends, so that one resume gives exactly one task cycle. Whatever
  happens, the flag is Pause afterwards and \<^verbatim>\<open>numLoops\<close> has grown by at most one.
  In the scenario, the suspended agent stays suspended when the loop is entered, and one
  \<^verbatim>\<open>handleContinue\<close> completes exactly the first task.
\<close>

theorem step_paused_loop:
  assumes "mode s = PAUSE_MODE"
  shows "(playbackControl s = AGENT_PAUSE \<longrightarrow>
            loop E s = Return () (s\<lparr>isRunning := False\<rparr>))
       \<and> (playbackControl s = AGENT_PLAY \<longrightarrow>
            loop E s =
              (let s1 = s\<lparr>isRunning := True, playbackControl := AGENT_PAUSE\<rparr> in
               if getRemainingTasks s = [] then Return () (shutdown (sendCompletedMessage s1))
               else if maxLoops E s < numLoops s + 1
               then Return () (shutdown (sendLoopMessage (s1\<lparr>numLoops := numLoops s + 1\<rparr>)))
               else case cycle E (s1\<lparr>numLoops := numLoops s + 1\<rparr>) of
                      Throw e s3 \<Rightarrow> Throw e s3
                    | Return _ s3 \<Rightarrow> Return () (s3\<lparr>isRunning := False\<rparr>)))
       \<and> playbackControl (state_of (loop E s)) = AGENT_PAUSE
       \<and> numLoops (state_of (loop E s)) \<le> numLoops s + 1"
proof -
  let ?s1 = "s\<lparr>isRunning := True, playbackControl := AGENT_PAUSE\<rparr>"
  let ?s2 = "?s1\<lparr>numLoops := numLoops s + 1\<rparr>"
  have paused: "playbackControl s = AGENT_PAUSE \<Longrightarrow> loop E s = Return () (s\<lparr>isRunning := False\<rparr>)"
    using assms by (rule loop_suspended)
  have again: "loop E s3 = Return () (s3\<lparr>isRunning := False\<rparr>)"
    if "cycle E ?s2 = Return u s3" for u s3
  proof (rule loop_suspended)
    have "mode (state_of (cycle E ?s2)) = PAUSE_MODE"
      "playbackControl (state_of (cycle E ?s2)) = AGENT_PAUSE"
      using assms by simp_all
    then show "mode s3 = PAUSE_MODE" "playbackControl s3 = AGENT_PAUSE"
      using that by simp_all
  qed
  have play: "loop E s =
      (let s1 = s\<lparr>isRunning := True, playbackControl := AGENT_PAUSE\<rparr> in
       if getRemainingTasks s = [] then Return () (shutdown (sendCompletedMessage s1))
       else if maxLoops E s < numLoops s + 1
       then Return () (shutdown (sendLoopMessage (s1\<lparr>numLoops := numLoops s + 1\<rparr>)))
       else case cycle E (s1\<lparr>numLoops := numLoops s + 1\<rparr>) of
              Throw e s3 \<Rightarrow> Throw e s3
            | Return _ s3 \<Rightarrow> Return () (s3\<lparr>isRunning := False\<rparr>))"
    if p: "playbackControl s = AGENT_PLAY"
    using again
    by (subst loop.simps) (simp add: conditionalPause_play [OF assms p] Let_def split: result.split)
  have flag: "playbackControl (state_of (loop E s)) = AGENT_PAUSE"
  proof (cases "playbackControl s")
    case AGENT_PAUSE
    then show ?thesis by (simp add: paused)
  next
    case AGENT_PLAY
    have "playbackControl (state_of (cycle E ?s2)) = AGENT_PAUSE"
      by simp
    then show ?thesis
      by (cases "cycle E ?s2")
        (simp_all add: play [OF AGENT_PLAY] Let_def shutdown_def setAgent_def send_defs)
  qed
  have count: "numLoops (state_of (loop E s)) \<le> numLoops s + 1"
  proof (cases "playbackControl s")
    case AGENT_PAUSE
    then show ?thesis by (simp add: paused)
  next
    case AGENT_PLAY
    have "numLoops (state_of (cycle E ?s2)) = numLoops s + 1"
      by simp
    then show ?thesis
      by (cases "cycle E ?s2")
        (simp_all add: play [OF AGENT_PLAY] Let_def shutdown_def setAgent_def send_defs)
  qed
  from paused play flag count show ?thesis by blast
qed

theorem step_paused_loop_witness:
  "mode suspended = PAUSE_MODE
   \<and> loop paris suspended = Return () (suspended\<lparr>isRunning := False\<rparr>)
   \<and> completedTasks (state_of (handleContinue paris suspended)) = [''Book flights'']
   \<and> numLoops (state_of (handleContinue paris suspended)) = 1
   \<and> isRunning (state_of (handleContinue paris suspended)) = False
   \<and> playbackControl (state_of (handleContinue paris suspended)) = AGENT_PAUSE"
proof -
  have m: "mode suspended = PAUSE_MODE" "playbackControl suspended = AGENT_PAUSE"
    by (simp_all add: suspended_def)
  let ?u = "updateIsRunning True (updatePlayBackControl AGENT_PLAY suspended)"
  let ?c = "?u\<lparr>isRunning := True, playbackControl := AGENT_PAUSE, numLoops := numLoops ?u + 1\<rparr>"
  have u: "mode ?u = PAUSE_MODE" "playbackControl ?u = AGENT_PLAY" "isRunning ?u"
    "numLoops ?u = 0" "getRemainingTasks ?u = [flights, hotel, itinerary]"
    "maxLoops paris ?u = 4" "completedTasks ?u = []"
    by (simp_all add: model_defs demo_defs)
  have c: "getRemainingTasks ?c = flights # [hotel, itinerary]"
    "analyze paris (requests ?c) (taskValue flights) = Inr ''reason''"
    "execute paris (requests ?c + 1) (taskValue flights) ''reason'' = Inr ''done Book flights''"
    using u(5) by (simp_all add: paris_def flights_def)
  from cycle_executed [OF c] obtain s'
    where s': "cycle paris ?c = Return () (addNewTasks paris flights ''done Book flights'' s')"
      "completedTasks s' = completedTasks ?c @ [taskValue flights]"
    by blast
  let ?d = "addNewTasks paris flights ''done Book flights'' s'"
  have d0: "?d = state_of (cycle paris ?c)"
    by (simp add: s'(1))
  have d: "mode ?d = PAUSE_MODE" "playbackControl ?d = AGENT_PAUSE" "numLoops ?d = 1"
    using u(1,4) by (simp_all only: d0 cycle_fields) simp_all
  have "loop paris ?u =
          (case cycle paris ?c of
             Throw e s3 \<Rightarrow> Throw e s3
           | Return _ s3 \<Rightarrow> Return () (s3\<lparr>isRunning := False\<rparr>))"
    using step_paused_loop [OF u(1), of paris] u(2,4,5,6) by simp
  then have loop: "loop paris ?u = Return () (?d\<lparr>isRunning := False\<rparr>)"
    unfolding s'(1) by simp
  have held: "pageAgent suspended"
    by (simp add: suspended_def planned_def)
  from loop have "handleContinue paris suspended =
               Return () (handlePause AGENT_PAUSE (?d\<lparr>isRunning := False\<rparr>))"
    using u(3) d(1,2) held by (simp add: handleContinue_def run_def)
  then show ?thesis
    using step_paused_loop [OF m(1), of paris] m d(2,3) s'(2) u(7)
    by (simp add: handlePause_def flights_def)
qed

text \<open>
  C2. The budget \<^verbatim>\<open>maxLoops\<close> is \<^verbatim>\<open>customMaxLoops\<close> when that is set and not zero, and
  the free-tier default otherwise. A pass of the loop that is running and finds a task to do
  counts itself in \<^verbatim>\<open>numLoops\<close>, by exactly one. If the incremented counter exceeds the
  budget the run ends there with the loop-limit message and the shutdown callback, and
  nothing else: no request is sent, the task store and the completed list are untouched. If
  it does not exceed the budget, the pass runs a task cycle, which begins by selecting the
  first started task and leaves the counter alone.
\<close>

theorem loop_budget:
  assumes "isRunning (conditionalPause s)" and "getRemainingTasks s = c # rest"
  shows "maxLoops E s =
           (case customMaxLoops s of
              None \<Rightarrow> DEFAULT_MAX_LOOPS_FREE E
            | Some n \<Rightarrow> if n = 0 then DEFAULT_MAX_LOOPS_FREE E else n)
       \<and> (maxLoops E s < numLoops s + 1 \<longrightarrow>
            (\<exists>s'. loop E s = Return () s' \<and> numLoops s' = numLoops s + 1 \<and>
                  trace s' = trace s @ [Msg LoopMessage, Shutdown] \<and>
                  tasks s' = tasks s \<and> completedTasks s' = completedTasks s \<and>
                  requests s' = requests s))
       \<and> (\<not> maxLoops E s < numLoops s + 1 \<longrightarrow>
            (let s2 = (conditionalPause s)\<lparr>numLoops := numLoops s + 1\<rparr> in
             loop E s = (case cycle E s2 of Throw e s' \<Rightarrow> Throw e s' | Return _ s' \<Rightarrow> loop E s') \<and>
             numLoops (state_of (cycle E s2)) = numLoops s + 1 \<and>
             take (length (trace s) + 2) (trace (state_of (cycle E s2))) =
               trace s @ [Timeout TIMEOUT_LONG, Msg (TaskMessage (c\<lparr>status := Executing\<rparr>))]))"
proof (intro conjI impI)
  show "maxLoops E s =
           (case customMaxLoops s of
              None \<Rightarrow> DEFAULT_MAX_LOOPS_FREE E
            | Some n \<Rightarrow> if n = 0 then DEFAULT_MAX_LOOPS_FREE E else n)"
    by (simp add: maxLoops_def)
next
  assume over: "maxLoops E s < numLoops s + 1"
  have "loop E s =
          Return () (shutdown (sendLoopMessage ((conditionalPause s)\<lparr>numLoops := numLoops s + 1\<rparr>)))"
    using assms over by (simp add: loop_iteration)
  then show "\<exists>s'. loop E s = Return () s' \<and> numLoops s' = numLoops s + 1 \<and>
                  trace s' = trace s @ [Msg LoopMessage, Shutdown] \<and>
                  tasks s' = tasks s \<and> completedTasks s' = completedTasks s \<and>
                  requests s' = requests s"
    by (simp add: shutdown_def setAgent_def sendLoopMessage_def sendMessage_tasks)
next
  assume within: "\<not> maxLoops E s < numLoops s + 1"
  let ?s2 = "(conditionalPause s)\<lparr>numLoops := numLoops s + 1\<rparr>"
  have "getRemainingTasks ?s2 = c # rest"
    using assms(2) by simp
  from cycle_starts [OF this, of E]
  show "let s2 = (conditionalPause s)\<lparr>numLoops := numLoops s + 1\<rparr> in
        loop E s = (case cycle E s2 of Throw e s' \<Rightarrow> Throw e s' | Return _ s' \<Rightarrow> loop E s') \<and>
        numLoops (state_of (cycle E s2)) = numLoops s + 1 \<and>
        take (length (trace s) + 2) (trace (state_of (cycle E s2))) =
          trace s @ [Timeout TIMEOUT_LONG, Msg (TaskMessage (c\<lparr>status := Executing\<rparr>))]"
    using assms within by (simp add: loop_iteration Let_def)
qed

theorem loop_budget_witness:
  "isRunning (conditionalPause (planned\<lparr>customMaxLoops := Some 2, numLoops := 2\<rparr>))
   \<and> getRemainingTasks (planned\<lparr>customMaxLoops := Some 2, numLoops := 2\<rparr>) =
       flights # [hotel, itinerary]
   \<and> DEFAULT_MAX_LOOPS_FREE paris = 4
   \<and> maxLoops paris (planned\<lparr>customMaxLoops := Some 2, numLoops := 2\<rparr>) = 2
   \<and> maxLoops paris (planned\<lparr>customMaxLoops := Some 0, numLoops := 2\<rparr>) = 4
   \<and> maxLoops paris (planned\<lparr>customMaxLoops := None, numLoops := 2\<rparr>) = 4
   \<and> tasks (state_of (loop paris (planned\<lparr>customMaxLoops := Some 2, numLoops := 2\<rparr>))) =
       tasks planned
   \<and> requests (state_of (loop paris (planned\<lparr>customMaxLoops := Some 2, numLoops := 2\<rparr>))) =
       requests planned
   \<and> numLoops (state_of (loop paris (planned\<lparr>customMaxLoops := Some 2, numLoops := 2\<rparr>))) = 3
   \<and> trace (state_of (loop paris (planned\<lparr>customMaxLoops := Some 2, numLoops := 2\<rparr>))) =
       trace planned @ [Msg LoopMessage, Shutdown]"
proof -
  let ?s = "planned\<lparr>customMaxLoops := Some 2, numLoops := 2\<rparr>"
  let ?z = "planned\<lparr>customMaxLoops := Some 0, numLoops := 2\<rparr>"
  let ?n = "planned\<lparr>customMaxLoops := None, numLoops := 2\<rparr>"
  have r: "isRunning (conditionalPause ?s)" "isRunning (conditionalPause ?z)"
    "isRunning (conditionalPause ?n)"
    by (simp_all add: conditionalPause_def planned_def)
  have t: "getRemainingTasks ?s = flights # [hotel, itinerary]"
    "getRemainingTasks ?z = flights # [hotel, itinerary]"
    "getRemainingTasks ?n = flights # [hotel, itinerary]"
    by (simp_all add: getRemainingTasks_def planned_def flights_def hotel_def itinerary_def)
  have d: "DEFAULT_MAX_LOOPS_FREE paris = 4"
    by (simp add: paris_def)
  have b: "maxLoops paris ?s = 2" "maxLoops paris ?z = 4" "maxLoops paris ?n = 4"
    using loop_budget [OF r(1) t(1), of paris, THEN conjunct1]
      loop_budget [OF r(2) t(2), of paris, THEN conjunct1]
      loop_budget [OF r(3) t(3), of paris, THEN conjunct1] d
    by simp_all
  have "\<exists>s'. loop paris ?s = Return () s' \<and> numLoops s' = numLoops ?s + 1 \<and>
              trace s' = trace ?s @ [Msg LoopMessage, Shutdown] \<and>
              tasks s' = tasks ?s \<and> completedTasks s' = completedTasks ?s \<and>
              requests s' = requests ?s"
    using loop_budget [OF r(1) t(1), of paris, THEN conjunct2, THEN conjunct1] b(1) by simp
  then show ?thesis
    using r(1) t(1) d b by auto
qed

text \<open>
  C3 (as amended). If the decomposition request fails, \<^verbatim>\<open>startGoal\<close> emits exactly one
  error message, the text \<^verbatim>\<open>getMessageFromError\<close> chooses, after the goal and thinking
  messages, and ends with the shutdown callback; \<^verbatim>\<open>numLoops\<close> and the task store are left
  as they were, and \<^verbatim>\<open>isRunning\<close> is not reset: it is still true when \<^verbatim>\<open>startGoal\<close>
  returns. On a new agent (not running, no started task in the store) \<^verbatim>\<open>run\<close> as a whole
  returns normally, its messages begin with goal, thinking and that error message, which is
  the only error message among them, the shutdown callback has been called, and
  \<^verbatim>\<open>numLoops\<close> and the task store are unchanged, in either mode.
\<close>

theorem decomposition_failure:
  assumes "decompose E (requests s) (goal s) = Inl e"
  shows "messages (startGoal E s) =
           messages s @ [GoalMessage (goal s), ThinkingMessage,
                         ErrorMessage (getMessageFromError E e)]
       \<and> last (trace (startGoal E s)) = Shutdown
       \<and> numLoops (startGoal E s) = numLoops s
       \<and> tasks (startGoal E s) = tasks s
       \<and> isRunning (startGoal E s) = isRunning s
       \<and> isRunning (startGoal E (updateIsRunning True s))
       \<and> (\<not> isRunning s \<and> getRemainingTasks s = [] \<longrightarrow>
            (\<exists>s'. run E s = Return () s' \<and>
                  take 3 (drop (length (messages s)) (messages s')) =
                    [GoalMessage (goal s), ThinkingMessage,
                     ErrorMessage (getMessageFromError E e)] \<and>
                  filter isError (drop (length (messages s)) (messages s')) =
                    [ErrorMessage (getMessageFromError E e)] \<and>
                  Shutdown \<in> set (drop (length (trace s)) (trace s')) \<and>
                  numLoops s' = numLoops s \<and> tasks s' = tasks s))"
proof -
  have start: "messages (startGoal E s) =
                 messages s @ [GoalMessage (goal s), ThinkingMessage,
                               ErrorMessage (getMessageFromError E e)]"
    "last (trace (startGoal E s)) = Shutdown"
    using startGoal_fails(1) [OF assms] by (simp_all add: messages_msgs)
  let ?u = "updateIsRunning True s"
  have "decompose E (requests ?u) (goal ?u) = Inl e" "isRunning ?u"
    using assms by (simp_all add: updateIsRunning_def setIsRunning_def)
  then have kept: "isRunning (startGoal E ?u)"
    using startGoal_fails(4) [of E ?u e] by simp
  have whole: "\<exists>s'. run E s = Return () s' \<and>
                  take 3 (drop (length (messages s)) (messages s')) =
                    [GoalMessage (goal s), ThinkingMessage,
                     ErrorMessage (getMessageFromError E e)] \<and>
                  filter isError (drop (length (messages s)) (messages s')) =
                    [ErrorMessage (getMessageFromError E e)] \<and>
                  Shutdown \<in> set (drop (length (trace s)) (trace s')) \<and>
                  numLoops s' = numLoops s \<and> tasks s' = tasks s"
    if "\<not> isRunning s" "getRemainingTasks s = []"
  proof -
    from run_after_failed_start [OF assms that]
    obtain s' ext where s': "run E s = Return () s'" "numLoops s' = numLoops s"
      "tasks s' = tasks s"
      "trace s' =
         trace s @ [Msg (GoalMessage (goal s)), Msg ThinkingMessage,
                    Request (GetInitialTasks (goal s)), Shutdown,
                    Msg (ErrorMessage (getMessageFromError E e)), Shutdown] @ ext"
      "filter isError (msgs ext) = []"
      by blast
    have "take 3 (drop (length (messages s)) (messages s')) =
            [GoalMessage (goal s), ThinkingMessage, ErrorMessage (getMessageFromError E e)]"
      "filter isError (drop (length (messages s)) (messages s')) =
         [ErrorMessage (getMessageFromError E e)]"
      "Shutdown \<in> set (drop (length (trace s)) (trace s'))"
      using s'(4,5) by (simp_all add: messages_msgs)
    then show ?thesis
      using s'(1,2,3) by blast
  qed
  from start startGoal_fails(2,3,4) [OF assms] kept whole show ?thesis
    by blast
qed

theorem decomposition_failure_witness:
  "decompose offline (requests automatic) (goal automatic) = Inl (AxiosError (Some 429))
   \<and> isRunning automatic = False
   \<and> getRemainingTasks automatic = []
   \<and> numLoops (state_of (run offline automatic)) = 0
   \<and> filter isError (messages (state_of (run offline automatic))) =
       [ErrorMessage ''errors:ERROR_ACCESSING_OPENAI_API_KEY'']
   \<and> take 3 (messages (state_of (run offline automatic))) =
       [GoalMessage ''Plan a trip to Paris'', ThinkingMessage,
        ErrorMessage ''errors:ERROR_ACCESSING_OPENAI_API_KEY'']"
proof -
  have d: "decompose offline (requests automatic) (goal automatic) = Inl (AxiosError (Some 429))"
    by (simp add: offline_def paris_def)
  have s: "\<not> isRunning automatic \<and> getRemainingTasks automatic = []"
    "numLoops automatic = 0" "messages automatic = []"
    "goal automatic = ''Plan a trip to Paris''"
    by (simp_all add: automatic_def constructor_def setAgent_def idle_def messages_def
        getRemainingTasks_def)
  have g: "getMessageFromError offline (AxiosError (Some 429)) =
             ''errors:ERROR_ACCESSING_OPENAI_API_KEY''"
    by (simp add: getMessageFromError_def offline_def paris_def)
  show ?thesis
    using decomposition_failure [OF d] d s g by auto
qed

text \<open>
  C3 as first stated does not hold: in automatic mode \<^verbatim>\<open>run\<close> returns with
  \<^verbatim>\<open>isRunning\<close> still true, and the loop it entered after the failure has added the
  message that all tasks are completed.
\<close>

theorem decomposition_failure_counterexample:
  "decompose offline (requests automatic) (goal automatic) = Inl (AxiosError (Some 429))
   \<and> isRunning (state_of (run offline automatic))
   \<and> messages (state_of (run offline automatic)) =
       [GoalMessage ''Plan a trip to Paris'', ThinkingMessage,
        ErrorMessage ''errors:ERROR_ACCESSING_OPENAI_API_KEY'', CompletedMessage]"
proof -
  let ?u = "updateIsRunning True automatic"
  have d: "decompose offline (requests ?u) (goal ?u) = Inl (AxiosError (Some 429))"
    by (simp add: offline_def paris_def)
  have a: "\<not> isRunning automatic" "mode ?u = AUTOMATIC_MODE" "isRunning ?u" "tasks ?u = []"
    "trace ?u = []" "goal ?u = ''Plan a trip to Paris''"
    by (simp_all add: automatic_def constructor_def setAgent_def idle_def updateIsRunning_def setIsRunning_def)
  let ?t = "startGoal offline ?u"
  have t: "mode ?t = AUTOMATIC_MODE" "isRunning ?t" "tasks ?t = []"
    using startGoal_fails(3,4,5) [OF d] a by simp_all
  then have "loop offline ?t = Return () (shutdown (sendCompletedMessage ?t))"
    by (simp add: loop_completed conditionalPause_auto getRemainingTasks_def)
  then have "run offline automatic = Return () (shutdown (sendCompletedMessage ?t))"
    using a(1) t by (simp add: run_def shutdown_def setAgent_def send_defs)
  moreover have "getMessageFromError offline (AxiosError (Some 429)) =
             ''errors:ERROR_ACCESSING_OPENAI_API_KEY''"
    by (simp add: getMessageFromError_def offline_def paris_def)
  ultimately show ?thesis
    using startGoal_fails(1) [OF d] t(2) a
    by (simp add: messages_msgs shutdown_def setAgent_def send_defs offline_def paris_def)
qed

text \<open>
  C4. What \<^verbatim>\<open>getMessageFromError\<close> makes of an axios error with status 429: the second
  \<^verbatim>\<open>if\<close> has no \<^verbatim>\<open>else\<close> before it, so its own \<^verbatim>\<open>else\<close> branch overwrites the
  quota message with the generic access error.
\<close>

theorem getMessageFromError_429:
  "getMessageFromError E (AxiosError (Some 429)) =
     translate E ''ERROR_ACCESSING_OPENAI_API_KEY'' ''errors''"
  by (simp add: getMessageFromError_def)

text \<open>
  C5 (as amended). The task messages about one task come in the order started, executing,
  completed, final, each at most once and none without the ones before it; this holds after
  every \<^verbatim>\<open>run\<close> from a consistent state, which is consistent again. A task cycle whose
  analysis and execution succeed emits, for its task, executing, then thinking and the
  analysis message, then completed, and after the announcements of the new tasks it emits
  final as a further message exactly when the follow-up request returned no task or failed:
  final comes in addition to completed, not instead of it.
\<close>

theorem task_message_order:
  assumes "consistent s"
  shows "consistent (state_of (run E s))
       \<and> (\<forall>i. taskStatuses i (trace (state_of (run E s))) \<in>
                {[], [Started], [Started, Executing], [Started, Executing, Completed],
                 [Started, Executing, Completed, Final]})
       \<and> (\<forall>c rest a r.
             getRemainingTasks s = c # rest \<and> analyze E (requests s) (taskValue c) = Inr a \<and>
             execute E (requests s + 1) (taskValue c) a = Inr r \<longrightarrow>
             messages (state_of (cycle E s)) =
               messages s @
               [TaskMessage (c\<lparr>status := Executing\<rparr>), ThinkingMessage, AnalysisMessage a,
                TaskMessage (c\<lparr>info := Some r, status := Completed\<rparr>), ThinkingMessage] @
               (case followUps E (requests s + 2) (taskValue c)
                       (map taskValue (filter (\<lambda>u. taskId u \<noteq> taskId c) rest))
                       (completedTasks s @ [taskValue c]) r of
                  Inl e \<Rightarrow>
                    [ErrorMessage (translate E ''ERROR_ADDING_ADDITIONAL_TASKS'' ''errors''),
                     TaskMessage (c\<lparr>status := Final\<rparr>)]
                | Inr newTasks \<Rightarrow>
                    msgs (startedEvents (nextId s) newTasks) @
                    (if newTasks = [] then [TaskMessage (c\<lparr>status := Final\<rparr>)] else []))
             \<and> (TaskMessage (c\<lparr>status := Final\<rparr>) \<in>
                  set (drop (length (messages s)) (messages (state_of (cycle E s)))) \<longleftrightarrow>
                followUps E (requests s + 2) (taskValue c)
                  (map taskValue (filter (\<lambda>u. taskId u \<noteq> taskId c) rest))
                  (completedTasks s @ [taskValue c]) r = Inr [] \<or>
                (\<exists>e. followUps E (requests s + 2) (taskValue c)
                       (map taskValue (filter (\<lambda>u. taskId u \<noteq> taskId c) rest))
                       (completedTasks s @ [taskValue c]) r = Inl e)))"
proof (intro conjI allI impI)
  show c: "consistent (state_of (run E s))"
    using assms by (rule run_consistent)
  show "taskStatuses i (trace (state_of (run E s))) \<in>
                {[], [Started], [Started, Executing], [Started, Executing, Completed],
                 [Started, Executing, Completed, Final]}" for i
    using c by (rule consistent_order)
next
  fix c rest a r
  assume h: "getRemainingTasks s = c # rest \<and> analyze E (requests s) (taskValue c) = Inr a \<and>
             execute E (requests s + 1) (taskValue c) a = Inr r"
  let ?f = "followUps E (requests s + 2) (taskValue c)
              (map taskValue (filter (\<lambda>u. taskId u \<noteq> taskId c) rest))
              (completedTasks s @ [taskValue c]) r"
  from h have m: "messages (state_of (cycle E s)) =
               messages s @
               [TaskMessage (c\<lparr>status := Executing\<rparr>), ThinkingMessage, AnalysisMessage a,
                TaskMessage (c\<lparr>info := Some r, status := Completed\<rparr>), ThinkingMessage] @
               (case ?f of
                  Inl e \<Rightarrow>
                    [ErrorMessage (translate E ''ERROR_ADDING_ADDITIONAL_TASKS'' ''errors''),
                     TaskMessage (c\<lparr>status := Final\<rparr>)]
                | Inr newTasks \<Rightarrow>
                    msgs (startedEvents (nextId s) newTasks) @
                    (if newTasks = [] then [TaskMessage (c\<lparr>status := Final\<rparr>)] else []))"
    by (intro cycle_messages) simp_all
  then show "messages (state_of (cycle E s)) =
               messages s @
               [TaskMessage (c\<lparr>status := Executing\<rparr>), ThinkingMessage, AnalysisMessage a,
                TaskMessage (c\<lparr>info := Some r, status := Completed\<rparr>), ThinkingMessage] @
               (case ?f of
                  Inl e \<Rightarrow>
                    [ErrorMessage (translate E ''ERROR_ADDING_ADDITIONAL_TASKS'' ''errors''),
                     TaskMessage (c\<lparr>status := Final\<rparr>)]
                | Inr newTasks \<Rightarrow>
                    msgs (startedEvents (nextId s) newTasks) @
                    (if newTasks = [] then [TaskMessage (c\<lparr>status := Final\<rparr>)] else []))" .
  have ne: "TaskMessage (c\<lparr>status := Final\<rparr>) \<noteq> TaskMessage (c\<lparr>status := Executing\<rparr>)"
    "TaskMessage (c\<lparr>status := Final\<rparr>) \<noteq> TaskMessage (c\<lparr>info := Some r, status := Completed\<rparr>)"
    by (auto dest: arg_cong [where f = status])
  show "TaskMessage (c\<lparr>status := Final\<rparr>) \<in>
          set (drop (length (messages s)) (messages (state_of (cycle E s)))) \<longleftrightarrow>
        ?f = Inr [] \<or> (\<exists>e. ?f = Inl e)"
  proof (cases ?f)
    case (Inl e)
    then show ?thesis
      by (simp add: m)
  next
    case (Inr newTasks)
    have "TaskMessage (c\<lparr>status := Final\<rparr>) \<notin> set (msgs (startedEvents (nextId s) newTasks))"
      using started_only [of "c\<lparr>status := Final\<rparr>"] by auto
    then show ?thesis
      using ne Inr by (simp add: m)
  qed
qed

theorem task_message_order_witness:
  "consistent planned
   \<and> consistent (state_of (run paris planned))
   \<and> taskStatuses 0 (trace (state_of (run paris planned))) \<in>
       {[], [Started], [Started, Executing], [Started, Executing, Completed],
        [Started, Executing, Completed, Final]}
   \<and> getRemainingTasks planned = flights # [hotel, itinerary]
   \<and> followUps paris 3 ''Book flights'' [''Book hotel'', ''Draft itinerary'']
        [''Book flights''] ''done Book flights'' = Inr [''Compare airlines'']
   \<and> TaskMessage (flights\<lparr>status := Final\<rparr>) \<notin>
       set (drop (length (messages planned)) (messages (state_of (cycle paris planned))))"
proof -
  have c: "consistent planned"
    by (simp add: consistent_def planned_def flights_def hotel_def itinerary_def)
  have t: "getRemainingTasks planned = flights # [hotel, itinerary]"
    by (simp add: getRemainingTasks_def planned_def flights_def hotel_def itinerary_def)
  have h: "getRemainingTasks planned = flights # [hotel, itinerary] \<and>
           analyze paris (requests planned) (taskValue flights) = Inr ''reason'' \<and>
           execute paris (requests planned + 1) (taskValue flights) ''reason'' =
             Inr ''done Book flights''"
    using t by (simp add: paris_def flights_def)
  have f: "followUps paris (requests planned + 2) (taskValue flights)
             (map taskValue (filter (\<lambda>u. taskId u \<noteq> taskId flights) [hotel, itinerary]))
             (completedTasks planned @ [taskValue flights]) ''done Book flights'' =
           Inr [''Compare airlines'']"
    "followUps paris 3 ''Book flights'' [''Book hotel'', ''Draft itinerary'']
        [''Book flights''] ''done Book flights'' = Inr [''Compare airlines'']"
    by (simp_all add: paris_def flights_def)
  note order = task_message_order [OF c, of paris]
  have "TaskMessage (flights\<lparr>status := Final\<rparr>) \<notin>
       set (drop (length (messages planned)) (messages (state_of (cycle paris planned))))"
    using order [THEN conjunct2, THEN conjunct2, THEN spec, THEN spec, THEN spec, THEN spec,
        THEN mp, OF h, THEN conjunct2]
    by (simp only: f(1)) simp
  moreover have "consistent (state_of (run paris planned))"
    by (rule order [THEN conjunct1])
  moreover have "taskStatuses 0 (trace (state_of (run paris planned))) \<in>
       {[], [Started], [Started, Executing], [Started, Executing, Completed],
        [Started, Executing, Completed, Final]}"
    by (rule order [THEN conjunct2, THEN conjunct1, THEN spec])
  ultimately show ?thesis
    using c t f(2) by (intro conjI)
qed

text \<open>
  C5 as first stated does not hold: when no follow-up task is returned, the task has been
  announced completed and is then announced final as well.
\<close>

theorem task_message_order_counterexample:
  "getRemainingTasks planned = flights # [hotel, itinerary]
   \<and> followUps frugal 3 ''Book flights'' [''Book hotel'', ''Draft itinerary'']
        [''Book flights''] ''done Book flights'' = Inr []
   \<and> taskStatuses 0 (trace (state_of (cycle frugal planned))) =
       [Started, Executing, Completed, Final]"
proof -
  have t: "getRemainingTasks planned = flights # [hotel, itinerary]"
    by (simp add: getRemainingTasks_def planned_def flights_def hotel_def itinerary_def)
  have an: "analyze frugal (requests planned) (taskValue flights) = Inr ''reason''"
    by (simp add: frugal_def paris_def)
  have ex: "execute frugal (requests planned + 1) (taskValue flights) ''reason'' =
              Inr ''done Book flights''"
    by (simp add: frugal_def paris_def flights_def)
  have fu: "followUps frugal n cur remaining completed r = Inr []" for n cur remaining completed r
    by (simp add: frugal_def)
  from cycle_executed [OF t an ex]
  obtain s' where s': "cycle frugal planned = Return () (addNewTasks frugal flights ''done Book flights'' s')"
    "trace s' = trace planned @
       [Timeout TIMEOUT_LONG, Msg (TaskMessage (flights\<lparr>status := Executing\<rparr>)),
        Msg ThinkingMessage, Request (AnalyzeTask (taskValue flights)),
        Msg (AnalysisMessage ''reason''), Request (ExecuteTask (taskValue flights) ''reason''),
        Msg (TaskMessage (flights\<lparr>info := Some ''done Book flights'', status := Completed\<rparr>))]"
    by blast
  have "taskStatuses 0 (trace planned) = [Started]"
    by (simp add: planned_def flights_def hotel_def itinerary_def)
  then have "taskStatuses 0 (trace (state_of (cycle frugal planned))) =
       [Started, Executing, Completed, Final]"
    using s' by (simp add: trace_addNewTasks fu flights_def)
  then show ?thesis
    using t fu by simp
qed

text \<open>
  C6. A pass in which analysis and execution succeed and the follow-up request fails:
  the task cycle returns normally, its events end with the error message
  \<^verbatim>\<open>ERROR_ADDING_ADDITIONAL_TASKS\<close> and the current task marked final, and the task is
  final in the store and no longer among the started ones. The loop then makes its next pass
  from that state, and what the run emits goes on from there: in automatic mode the next
  pass reports completion when no started task is left, stops at the loop limit when the
  budget is spent, and otherwise starts on the next started task; in step-paused mode it
  suspends. (The absent \<^verbatim>\<open>AgentApi\<close> is modelled as passing every failure to
  \<^verbatim>\<open>onApiError\<close>, whence the shutdown event before the error message.)
\<close>

theorem followUp_failure_absorbed:
  assumes "isRunning (conditionalPause s)"
    and "getRemainingTasks s = c # rest"
    and "\<not> maxLoops E s < numLoops s + 1"
    and "analyze E (requests s) (taskValue c) = Inr a"
    and "execute E (requests s + 1) (taskValue c) a = Inr r"
    and "followUps E (requests s + 2) (taskValue c)
           (map taskValue (filter (\<lambda>u. taskId u \<noteq> taskId c) rest))
           (completedTasks s @ [taskValue c]) r = Inl e"
  shows "\<exists>s'. cycle E ((conditionalPause s)\<lparr>numLoops := numLoops s + 1\<rparr>) = Return () s'
          \<and> trace s' =
              trace s @
              [Timeout TIMEOUT_LONG, Msg (TaskMessage (c\<lparr>status := Executing\<rparr>)),
               Msg ThinkingMessage, Request (AnalyzeTask (taskValue c)),
               Msg (AnalysisMessage a), Request (ExecuteTask (taskValue c) a),
               Msg (TaskMessage (c\<lparr>info := Some r, status := Completed\<rparr>)),
               Timeout TIMEOUT_LONG, Msg ThinkingMessage,
               Request (GetAdditionalTasks (taskValue c)
                          (map taskValue (filter (\<lambda>u. taskId u \<noteq> taskId c) rest))
                          (completedTasks s @ [taskValue c]) r),
               Shutdown,
               Msg (ErrorMessage (translate E ''ERROR_ADDING_ADDITIONAL_TASKS'' ''errors'')),
               Msg (TaskMessage (c\<lparr>status := Final\<rparr>))]
          \<and> taskId c \<in> taskId ` set (tasks s')
          \<and> (\<forall>u\<in>set (tasks s'). taskId u = taskId c \<longrightarrow> status u = Final)
          \<and> getRemainingTasks s' = filter (\<lambda>u. taskId u \<noteq> taskId c) rest
          \<and> numLoops s' = numLoops s + 1
          \<and> loop E s = loop E s'
          \<and> (\<exists>ext. trace (state_of (loop E s)) = trace s' @ ext)
          \<and> (mode s = PAUSE_MODE \<longrightarrow> loop E s = Return () (s'\<lparr>isRunning := False\<rparr>))
          \<and> (mode s \<noteq> PAUSE_MODE \<longrightarrow>
               (getRemainingTasks s' = [] \<longrightarrow>
                  loop E s = Return () (shutdown (sendCompletedMessage s')))
             \<and> (getRemainingTasks s' \<noteq> [] \<and> maxLoops E s < numLoops s' + 1 \<longrightarrow>
                  loop E s =
                    Return () (shutdown (sendLoopMessage (s'\<lparr>numLoops := numLoops s' + 1\<rparr>))))
             \<and> (getRemainingTasks s' \<noteq> [] \<and> \<not> maxLoops E s < numLoops s' + 1 \<longrightarrow>
                  take (length (trace s') + 2) (trace (state_of (loop E s))) =
                    trace s' @
                    [Timeout TIMEOUT_LONG,
                     Msg (TaskMessage ((hd (getRemainingTasks s'))\<lparr>status := Executing\<rparr>))]))"
proof -
  let ?s2 = "(conditionalPause s)\<lparr>numLoops := numLoops s + 1\<rparr>"
  have rem: "getRemainingTasks ?s2 = c # rest"
    using assms(2) by simp
  have an: "analyze E (requests ?s2) (taskValue c) = Inr a"
    and ex: "execute E (requests ?s2 + 1) (taskValue c) a = Inr r"
    using assms(4,5) by simp_all
  from cycle_executed [OF rem an ex]
  obtain s8 where s8: "cycle E ?s2 = Return () (addNewTasks E c r s8)"
    "trace s8 = trace ?s2 @
       [Timeout TIMEOUT_LONG, Msg (TaskMessage (c\<lparr>status := Executing\<rparr>)),
        Msg ThinkingMessage, Request (AnalyzeTask (taskValue c)),
        Msg (AnalysisMessage a), Request (ExecuteTask (taskValue c) a),
        Msg (TaskMessage (c\<lparr>info := Some r, status := Completed\<rparr>))]"
    "requests s8 = requests ?s2 + 2"
    "completedTasks s8 = completedTasks ?s2 @ [taskValue c]"
    "getRemainingTasks s8 = filter (\<lambda>u. taskId u \<noteq> taskId c) (getRemainingTasks ?s2)"
    "map taskId (tasks s8) = map taskId (tasks ?s2)"
    by blast
  have r8: "getRemainingTasks s8 = filter (\<lambda>u. taskId u \<noteq> taskId c) rest"
    using s8(5) rem by simp
  have fu: "followUps E (requests s8) (taskValue c) (map taskValue (getRemainingTasks s8))
              (completedTasks s8) r = Inl e"
    using assms(6) s8(3,4) r8 by simp
  let ?s' = "addNewTasks E c r s8"
  have s'0: "?s' = state_of (cycle E ?s2)"
    by (simp add: s8(1))
  have f: "mode ?s' = mode s" "isRunning ?s'" "numLoops ?s' = numLoops s + 1"
    "maxLoops E ?s' = maxLoops E s"
    "playbackControl ?s' = playbackControl (conditionalPause s)"
    using assms(1) by (simp_all only: s'0 cycle_fields maxLoops_cycle) simp_all
  have tr: "trace ?s' =
              trace s @
              [Timeout TIMEOUT_LONG, Msg (TaskMessage (c\<lparr>status := Executing\<rparr>)),
               Msg ThinkingMessage, Request (AnalyzeTask (taskValue c)),
               Msg (AnalysisMessage a), Request (ExecuteTask (taskValue c) a),
               Msg (TaskMessage (c\<lparr>info := Some r, status := Completed\<rparr>)),
               Timeout TIMEOUT_LONG, Msg ThinkingMessage,
               Request (GetAdditionalTasks (taskValue c)
                          (map taskValue (filter (\<lambda>u. taskId u \<noteq> taskId c) rest))
                          (completedTasks s @ [taskValue c]) r),
               Shutdown,
               Msg (ErrorMessage (translate E ''ERROR_ADDING_ADDITIONAL_TASKS'' ''errors'')),
               Msg (TaskMessage (c\<lparr>status := Final\<rparr>))]"
    using fu s8(2,4) r8 by (simp add: trace_addNewTasks)
  have inside: "taskId c \<in> taskId ` set (tasks ?s')"
  proof -
    have "c \<in> set (filter (\<lambda>t. status t = Started) (tasks s))"
      using assms(2) by (simp add: getRemainingTasks_def)
    then have "taskId c \<in> set (map taskId (tasks s))"
      by simp
    also have "map taskId (tasks s) = map taskId (tasks ?s')"
      using addNewTasks_fails(1) [OF fu] s8(6) by simp
    finally show ?thesis by simp
  qed
  have r': "getRemainingTasks ?s' = filter (\<lambda>u. taskId u \<noteq> taskId c) rest"
    using addNewTasks_fails(3) [OF fu] r8 by simp
  have cont: "loop E s = loop E ?s'"
    using assms(1,2,3) s8(1) by (simp add: loop_iteration)
  have ext: "\<exists>ext. trace (state_of (loop E s)) = trace ?s' @ ext"
    using loop_extends [of E ?s'] by (simp add: cont)
  have paused: "loop E s = Return () (?s'\<lparr>isRunning := False\<rparr>)" if m: "mode s = PAUSE_MODE"
  proof -
    have "playbackControl (conditionalPause s) = AGENT_PAUSE"
      using m by (cases "playbackControl s") (simp_all add: conditionalPause_def Let_def)
    then show ?thesis
      using m f(1,5) by (simp add: cont loop_suspended)
  qed
  have goes: "isRunning (conditionalPause ?s')" if "mode s \<noteq> PAUSE_MODE"
    using that f(1,2) by (simp add: conditionalPause_auto)
  have completed: "loop E s = Return () (shutdown (sendCompletedMessage ?s'))"
    if "mode s \<noteq> PAUSE_MODE" "getRemainingTasks ?s' = []"
    using that f(1) loop_completed [OF goes] by (simp add: cont conditionalPause_auto)
  have limit: "loop E s = Return () (shutdown (sendLoopMessage (?s'\<lparr>numLoops := numLoops ?s' + 1\<rparr>)))"
    if "mode s \<noteq> PAUSE_MODE" "getRemainingTasks ?s' \<noteq> []" "maxLoops E s < numLoops ?s' + 1"
    using that f(1,4) loop_iteration [OF goes, of E]
    by (simp add: cont conditionalPause_auto)
  have more: "take (length (trace ?s') + 2) (trace (state_of (loop E s))) =
                trace ?s' @
                [Timeout TIMEOUT_LONG,
                 Msg (TaskMessage ((hd (getRemainingTasks ?s'))\<lparr>status := Executing\<rparr>))]"
    if m: "mode s \<noteq> PAUSE_MODE" and t: "getRemainingTasks ?s' \<noteq> []"
      and b: "\<not> maxLoops E s < numLoops ?s' + 1"
  proof -
    obtain c' rest' where c': "getRemainingTasks ?s' = c' # rest'"
      using t by (cases "getRemainingTasks ?s'") simp_all
    have "\<not> maxLoops E ?s' < numLoops ?s' + 1"
      using b f(4) by simp
    from loop_pass_starts [OF goes [OF m] c' this] show ?thesis
      by (simp add: cont c')
  qed
  from s8(1) tr inside addNewTasks_fails(2) [OF fu] r' f(3) cont ext paused completed limit more
  show ?thesis
    by blast
qed

theorem followUp_failure_absorbed_witness:
  "isRunning (conditionalPause planned)
   \<and> getRemainingTasks planned = flights # [hotel, itinerary]
   \<and> followUps flaky 3 ''Book flights'' [''Book hotel'', ''Draft itinerary'']
        [''Book flights''] ''done Book flights'' = Inl (AxiosError None)
   \<and> loop flaky planned =
       loop flaky (state_of (cycle flaky ((conditionalPause planned)\<lparr>numLoops := 1\<rparr>)))
   \<and> messages (state_of (cycle flaky ((conditionalPause planned)\<lparr>numLoops := 1\<rparr>))) =
       messages planned @
       [TaskMessage (flights\<lparr>status := Executing\<rparr>), ThinkingMessage, AnalysisMessage ''reason'',
        TaskMessage (flights\<lparr>info := Some ''done Book flights'', status := Completed\<rparr>),
        ThinkingMessage, ErrorMessage ''errors:ERROR_ADDING_ADDITIONAL_TASKS'',
        TaskMessage (flights\<lparr>status := Final\<rparr>)]
   \<and> getRemainingTasks (state_of (cycle flaky ((conditionalPause planned)\<lparr>numLoops := 1\<rparr>))) =
       [hotel, itinerary]
   \<and> take (length (trace (state_of (cycle flaky ((conditionalPause planned)\<lparr>numLoops := 1\<rparr>)))) + 2)
        (trace (state_of (loop flaky planned))) =
       trace (state_of (cycle flaky ((conditionalPause planned)\<lparr>numLoops := 1\<rparr>))) @
       [Timeout TIMEOUT_LONG, Msg (TaskMessage (hotel\<lparr>status := Executing\<rparr>))]"
proof -
  have r: "isRunning (conditionalPause planned)"
    by (simp add: conditionalPause_def planned_def)
  have t: "getRemainingTasks planned = flights # [hotel, itinerary]"
    by (simp add: getRemainingTasks_def planned_def flights_def hotel_def itinerary_def)
  have b: "\<not> maxLoops flaky planned < numLoops planned + 1"
    "maxLoops flaky planned = 4" "mode planned \<noteq> PAUSE_MODE"
    by (simp_all add: maxLoops_def planned_def flaky_def paris_def)
  have an: "analyze flaky (requests planned) (taskValue flights) = Inr ''reason''"
    by (simp add: flaky_def paris_def)
  have ex: "execute flaky (requests planned + 1) (taskValue flights) ''reason'' =
              Inr ''done Book flights''"
    by (simp add: flaky_def paris_def flights_def)
  have fu: "followUps flaky (requests planned + 2) (taskValue flights)
              (map taskValue (filter (\<lambda>u. taskId u \<noteq> taskId flights) [hotel, itinerary]))
              (completedTasks planned @ [taskValue flights]) ''done Book flights'' =
            Inl (AxiosError None)"
    by (simp add: flaky_def paris_def)
  have v: "followUps flaky 3 ''Book flights'' [''Book hotel'', ''Draft itinerary'']
        [''Book flights''] ''done Book flights'' = Inl (AxiosError None)"
    "numLoops planned = 0" "translate flaky ''ERROR_ADDING_ADDITIONAL_TASKS'' ''errors'' =
       ''errors:ERROR_ADDING_ADDITIONAL_TASKS''"
    "filter (\<lambda>u. taskId u \<noteq> taskId flights) [hotel, itinerary] = [hotel, itinerary]"
    by (simp_all add: flaky_def paris_def planned_def flights_def hotel_def itinerary_def)
  from followUp_failure_absorbed [OF r t b(1) an ex fu]
  obtain s' where s': "cycle flaky ((conditionalPause planned)\<lparr>numLoops := numLoops planned + 1\<rparr>) =
        Return () s'"
    "trace s' =
       trace planned @
       [Timeout TIMEOUT_LONG, Msg (TaskMessage (flights\<lparr>status := Executing\<rparr>)),
        Msg ThinkingMessage, Request (AnalyzeTask (taskValue flights)),
        Msg (AnalysisMessage ''reason''), Request (ExecuteTask (taskValue flights) ''reason''),
        Msg (TaskMessage (flights\<lparr>info := Some ''done Book flights'', status := Completed\<rparr>)),
        Timeout TIMEOUT_LONG, Msg ThinkingMessage,
        Request (GetAdditionalTasks (taskValue flights)
                   (map taskValue (filter (\<lambda>u. taskId u \<noteq> taskId flights) [hotel, itinerary]))
                   (completedTasks planned @ [taskValue flights]) ''done Book flights''),
        Shutdown,
        Msg (ErrorMessage (translate flaky ''ERROR_ADDING_ADDITIONAL_TASKS'' ''errors'')),
        Msg (TaskMessage (flights\<lparr>status := Final\<rparr>))]"
    "getRemainingTasks s' = filter (\<lambda>u. taskId u \<noteq> taskId flights) [hotel, itinerary]"
    "loop flaky planned = loop flaky s'"
    "numLoops s' = numLoops planned + 1"
    "mode planned \<noteq> PAUSE_MODE \<longrightarrow>
       (getRemainingTasks s' \<noteq> [] \<and> \<not> maxLoops flaky planned < numLoops s' + 1 \<longrightarrow>
          take (length (trace s') + 2) (trace (state_of (loop flaky planned))) =
            trace s' @
            [Timeout TIMEOUT_LONG,
             Msg (TaskMessage ((hd (getRemainingTasks s'))\<lparr>status := Executing\<rparr>))])"
    by blast
  have n: "take (length (trace s') + 2) (trace (state_of (loop flaky planned))) =
            trace s' @ [Timeout TIMEOUT_LONG, Msg (TaskMessage (hotel\<lparr>status := Executing\<rparr>))]"
    using s'(5,6) b s'(3) v(2,4) by simp
  have c: "(conditionalPause planned)\<lparr>numLoops := 1\<rparr> =
           (conditionalPause planned)\<lparr>numLoops := numLoops planned + 1\<rparr>"
    by (simp add: v(2))
  have m: "messages s' =
       messages planned @
       [TaskMessage (flights\<lparr>status := Executing\<rparr>), ThinkingMessage, AnalysisMessage ''reason'',
        TaskMessage (flights\<lparr>info := Some ''done Book flights'', status := Completed\<rparr>),
        ThinkingMessage, ErrorMessage ''errors:ERROR_ADDING_ADDITIONAL_TASKS'',
        TaskMessage (flights\<lparr>status := Final\<rparr>)]"
    using s'(2) v(3) by (simp add: messages_msgs)
  show ?thesis
    unfolding c s'(1) state_of.simps
    using r t v(1) s'(4) m n s'(3) v(4) by simp
qed

text \<open>
  C7 (as amended). \<^verbatim>\<open>run\<close> performs the start phase exactly when \<^verbatim>\<open>isRunning\<close> is false
  at the call. With \<^verbatim>\<open>isRunning\<close> true it is the loop and nothing else, and sends no
  decomposition request. With \<^verbatim>\<open>isRunning\<close> false it is the loop after \<^verbatim>\<open>startGoal\<close>:
  it begins with the goal message, the thinking message and the decomposition request, and
  the tasks of a successful answer are announced next. The resume path
  \<^verbatim>\<open>handleContinue\<close> sets \<^verbatim>\<open>isRunning\<close> before it calls \<^verbatim>\<open>run\<close>, so a resume never
  decomposes the goal again.
\<close>

theorem run_resumes:
  "(isRunning s \<longrightarrow>
      run E s =
        (case loop E s of
           Throw e s' \<Rightarrow> Throw e s'
         | Return _ s' \<Rightarrow>
             Return () (if mode s' = PAUSE_MODE \<and> \<not> isRunning s'
                        then handlePause (playbackControl s') s' else s'))
      \<and> (\<forall>g. Request (GetInitialTasks g) \<notin>
                set (drop (length (trace s)) (trace (state_of (run E s))))))
   \<and> (\<forall>g. Request (GetInitialTasks g) \<notin>
            set (drop (length (trace s)) (trace (state_of (handleContinue E s)))))
   \<and> (\<not> isRunning s \<longrightarrow>
        run E s =
          (case loop E (startGoal E (updateIsRunning True s)) of
             Throw e s' \<Rightarrow> Throw e s'
           | Return _ s' \<Rightarrow>
               Return () (if mode s' = PAUSE_MODE \<and> \<not> isRunning s'
                          then handlePause (playbackControl s') s' else s'))
        \<and> take 3 (drop (length (trace s)) (trace (state_of (run E s)))) =
            [Msg (GoalMessage (goal s)), Msg ThinkingMessage,
             Request (GetInitialTasks (goal s))]
        \<and> (\<forall>vs. decompose E (requests s) (goal s) = Inr vs \<longrightarrow>
              take (2 * length vs) (drop (length (trace s) + 3) (trace (state_of (run E s)))) =
                startedEvents (nextId s) vs))
   \<and> (Request (GetInitialTasks (goal s)) \<in>
         set (drop (length (trace s)) (trace (state_of (run E s)))) \<longleftrightarrow> \<not> isRunning s)"
proof -
  let ?u = "updateIsRunning True (updatePlayBackControl AGENT_PLAY s)"
  have "isRunning ?u" "trace ?u = trace s"
    by (simp_all add: updateIsRunning_def setIsRunning_def updatePlayBackControl_def)
  then have "Request (GetInitialTasks g) \<notin>
               set (drop (length (trace s)) (trace (state_of (run E ?u))))" for g
    using run_no_decompose [of ?u g E] by simp
  then have cont: "Request (GetInitialTasks g) \<notin>
               set (drop (length (trace s)) (trace (state_of (handleContinue E s))))" for g
    by (simp add: handleContinue_def)
  have A: "isRunning s \<longrightarrow>
      run E s =
        (case loop E s of
           Throw e s' \<Rightarrow> Throw e s'
         | Return _ s' \<Rightarrow>
             Return () (if mode s' = PAUSE_MODE \<and> \<not> isRunning s'
                        then handlePause (playbackControl s') s' else s'))
      \<and> (\<forall>g. Request (GetInitialTasks g) \<notin>
                set (drop (length (trace s)) (trace (state_of (run E s)))))"
  proof (intro impI conjI allI)
    assume r: "isRunning s"
    show "run E s =
        (case loop E s of
           Throw e s' \<Rightarrow> Throw e s'
         | Return _ s' \<Rightarrow>
             Return () (if mode s' = PAUSE_MODE \<and> \<not> isRunning s'
                        then handlePause (playbackControl s') s' else s'))"
      using r by (rule run_running)
    show "Request (GetInitialTasks g) \<notin>
                set (drop (length (trace s)) (trace (state_of (run E s))))" for g
      using r by (rule run_no_decompose)
  qed
  have B: "\<forall>g. Request (GetInitialTasks g) \<notin>
            set (drop (length (trace s)) (trace (state_of (handleContinue E s))))"
    using cont by (rule allI)
  have C: "\<not> isRunning s \<longrightarrow>
        run E s =
          (case loop E (startGoal E (updateIsRunning True s)) of
             Throw e s' \<Rightarrow> Throw e s'
           | Return _ s' \<Rightarrow>
               Return () (if mode s' = PAUSE_MODE \<and> \<not> isRunning s'
                          then handlePause (playbackControl s') s' else s'))
        \<and> take 3 (drop (length (trace s)) (trace (state_of (run E s)))) =
            [Msg (GoalMessage (goal s)), Msg ThinkingMessage,
             Request (GetInitialTasks (goal s))]
        \<and> (\<forall>vs. decompose E (requests s) (goal s) = Inr vs \<longrightarrow>
              take (2 * length vs) (drop (length (trace s) + 3) (trace (state_of (run E s)))) =
                startedEvents (nextId s) vs)"
  proof (intro impI conjI allI)
    assume idle: "\<not> isRunning s"
    show "run E s =
          (case loop E (startGoal E (updateIsRunning True s)) of
             Throw e s' \<Rightarrow> Throw e s'
           | Return _ s' \<Rightarrow>
               Return () (if mode s' = PAUSE_MODE \<and> \<not> isRunning s'
                          then handlePause (playbackControl s') s' else s'))"
      using idle by (rule run_idle)
    from run_starts [OF idle, of E] obtain ext
      where tr: "trace (state_of (run E s)) =
           trace s @ [Msg (GoalMessage (goal s)), Msg ThinkingMessage,
                      Request (GetInitialTasks (goal s))] @
           (case decompose E (requests s) (goal s) of
              Inr vs \<Rightarrow> startedEvents (nextId s) vs
            | Inl e \<Rightarrow> [Shutdown, Msg (ErrorMessage (getMessageFromError E e)), Shutdown]) @ ext"
      by blast
    show "take 3 (drop (length (trace s)) (trace (state_of (run E s)))) =
            [Msg (GoalMessage (goal s)), Msg ThinkingMessage,
             Request (GetInitialTasks (goal s))]"
      by (simp add: tr)
    show "take (2 * length vs) (drop (length (trace s) + 3) (trace (state_of (run E s)))) =
                startedEvents (nextId s) vs"
      if "decompose E (requests s) (goal s) = Inr vs" for vs
      by (simp add: tr that)
  qed
  have D: "Request (GetInitialTasks (goal s)) \<in>
         set (drop (length (trace s)) (trace (state_of (run E s)))) \<longleftrightarrow> \<not> isRunning s"
  proof
    assume "Request (GetInitialTasks (goal s)) \<in>
         set (drop (length (trace s)) (trace (state_of (run E s))))"
    then show "\<not> isRunning s"
      using run_no_decompose [of s "goal s" E] by blast
  next
    assume idle: "\<not> isRunning s"
    from run_starts [OF idle, of E] obtain ys
      where "trace (state_of (run E s)) =
           trace s @ [Msg (GoalMessage (goal s)), Msg ThinkingMessage,
                      Request (GetInitialTasks (goal s))] @ ys"
      by blast
    then show "Request (GetInitialTasks (goal s)) \<in>
         set (drop (length (trace s)) (trace (state_of (run E s))))"
      by simp
  qed
  from A B C D show ?thesis
    by (intro conjI)
qed

theorem run_resumes_witness:
  "isRunning planned
   \<and> Request (GetInitialTasks ''Plan a trip to Paris'') \<notin>
       set (drop (length (trace planned)) (trace (state_of (run paris planned))))
   \<and> Request (GetInitialTasks ''Plan a trip to Paris'') \<notin>
       set (drop (length (trace suspended)) (trace (state_of (handleContinue paris suspended))))
   \<and> isRunning suspended = False
   \<and> decompose paris (requests suspended) (goal suspended) =
       Inr [''Book flights'', ''Book hotel'', ''Draft itinerary'']
   \<and> take 3 (drop (length (trace suspended)) (trace (state_of (run paris suspended)))) =
       [Msg (GoalMessage ''Plan a trip to Paris''), Msg ThinkingMessage,
        Request (GetInitialTasks ''Plan a trip to Paris'')]
   \<and> take 6 (drop (length (trace suspended) + 3) (trace (state_of (run paris suspended)))) =
       startedEvents 3 [''Book flights'', ''Book hotel'', ''Draft itinerary'']"
proof -
  have p: "isRunning planned"
    by (simp add: planned_def)
  have s: "\<not> isRunning suspended" "goal suspended = ''Plan a trip to Paris''"
    "nextId suspended = 3"
    and d: "decompose paris (requests suspended) (goal suspended) =
       Inr [''Book flights'', ''Book hotel'', ''Draft itinerary'']"
    by (simp_all add: suspended_def planned_def paris_def)
  have a: "Request (GetInitialTasks ''Plan a trip to Paris'') \<notin>
       set (drop (length (trace planned)) (trace (state_of (run paris planned))))"
    by (rule run_resumes [of planned paris, THEN conjunct1, THEN mp, OF p, THEN conjunct2,
          THEN spec])
  have b: "Request (GetInitialTasks ''Plan a trip to Paris'') \<notin>
       set (drop (length (trace suspended)) (trace (state_of (handleContinue paris suspended))))"
    by (rule run_resumes [of suspended paris, THEN conjunct2, THEN conjunct1, THEN spec])
  have c: "take 3 (drop (length (trace suspended)) (trace (state_of (run paris suspended)))) =
       [Msg (GoalMessage (goal suspended)), Msg ThinkingMessage,
        Request (GetInitialTasks (goal suspended))]"
    by (rule run_resumes [of suspended paris, THEN conjunct2, THEN conjunct2, THEN conjunct1,
          THEN mp, OF s(1), THEN conjunct2, THEN conjunct1])
  have "take (2 * length [''Book flights'', ''Book hotel'', ''Draft itinerary''])
          (drop (length (trace suspended) + 3) (trace (state_of (run paris suspended)))) =
        startedEvents (nextId suspended) [''Book flights'', ''Book hotel'', ''Draft itinerary'']"
    by (rule run_resumes [of suspended paris, THEN conjunct2, THEN conjunct2, THEN conjunct1,
          THEN mp, OF s(1), THEN conjunct2, THEN conjunct2, THEN spec, THEN mp, OF d])
  then have e: "take 6 (drop (length (trace suspended) + 3) (trace (state_of (run paris suspended)))) =
       startedEvents 3 [''Book flights'', ''Book hotel'', ''Draft itinerary'']"
    by (simp only: s(3)) (simp del: startedEvents.simps)
  show ?thesis
    using p a b s(1) d c e by (simp only: s(2)) simp
qed

text \<open>
  C7 as first stated does not hold: the first \<^verbatim>\<open>run\<close> of a step-paused agent starts
  successfully and suspends with \<^verbatim>\<open>isRunning\<close> false; a second \<^verbatim>\<open>run\<close> on that state
  sends the decomposition request again and enqueues the three initial tasks a second time.
\<close>

theorem run_resumes_counterexample:
  "run paris stepPaused = Return () suspended
   \<and> Request (GetInitialTasks ''Plan a trip to Paris'') \<in>
       set (drop (length (trace suspended)) (trace (state_of (run paris suspended))))
   \<and> map taskValue (tasks (state_of (run paris suspended))) =
       [''Book flights'', ''Book hotel'', ''Draft itinerary'',
        ''Book flights'', ''Book hotel'', ''Draft itinerary'']"
proof -
  let ?t = "startGoal paris (updateIsRunning True suspended)"
  have idle: "\<not> isRunning suspended"
    by (simp add: suspended_def)
  have t: "mode ?t = PAUSE_MODE" "playbackControl ?t = AGENT_PAUSE"
    "map taskValue (tasks ?t) =
       [''Book flights'', ''Book hotel'', ''Draft itinerary'',
        ''Book flights'', ''Book hotel'', ''Draft itinerary'']"
    "Request (GetInitialTasks ''Plan a trip to Paris'') \<in>
       set (drop (length (trace suspended)) (trace ?t))"
    by (simp_all add: model_defs demo_defs)
  have "run paris suspended = Return () (handlePause AGENT_PAUSE (?t\<lparr>isRunning := False\<rparr>))"
    using idle t(1,2) by (simp add: run_def loop_suspended)
  then show ?thesis
    using t(3,4) by (simp add: suspended_reached handlePause_def)
qed

text \<open>
  C9. \<^verbatim>\<open>stopAgent\<close> emits the manual-shutdown message and calls the shutdown callback,
  sets \<^verbatim>\<open>isRunning\<close> to false and leaves the task store alone; a second call on the
  stopped agent does not touch the task store either and emits no task message.
\<close>

theorem stopAgent_effect:
  "trace (stopAgent s) = trace s @ [Msg ManualShutdownMessage, Shutdown]
   \<and> isRunning (stopAgent s) = False
   \<and> tasks (stopAgent s) = tasks s
   \<and> tasks (stopAgent (stopAgent s)) = tasks (stopAgent s)
   \<and> taskIds (drop (length (trace (stopAgent s))) (trace (stopAgent (stopAgent s)))) = []"
  by (simp add: stopAgent_def shutdown_def setAgent_def updateIsRunning_def setIsRunning_def
      sendManualShutdownMessage_def sendMessage_tasks)

text \<open>
  C10. The constructor's playback flag: a supplied truthy \<^verbatim>\<open>playbackControl\<close> gives Pause
  whatever its value and whatever the mode, and the flag is Play exactly when the argument
  is absent or falsy and the mode is not step-paused.
\<close>

theorem constructor_playbackControl:
  "(truthy p \<longrightarrow> playbackControl (constructor truthy g cml m (Some p) w) = AGENT_PAUSE)
   \<and> (playbackControl (constructor truthy g cml m pc w) = AGENT_PLAY \<longleftrightarrow>
        (pc = None \<or> (\<exists>q. pc = Some q \<and> \<not> truthy q)) \<and> m \<noteq> Some PAUSE_MODE)"
  by (cases pc; cases m) (auto simp add: constructor_def Let_def)

theorem constructor_playbackControl_witness:
  "playbackControl
     (constructor (\<lambda>_. True) ''Plan a trip to Paris'' None (Some AUTOMATIC_MODE) (Some AGENT_PLAY) idle)
     = AGENT_PAUSE
   \<and> playbackControl (constructor (\<lambda>_. True) ''Plan a trip to Paris'' None None None idle)
     = AGENT_PLAY"
  using constructor_playbackControl [of "\<lambda>_. True" AGENT_PLAY "''Plan a trip to Paris''" None
      "Some AUTOMATIC_MODE" idle "Some AGENT_PLAY"]
    constructor_playbackControl [of "\<lambda>_. True" AGENT_PLAY "''Plan a trip to Paris''" None
      None idle None]
  by simp

end
